theory Spec2Isabelle
  imports Main
begin

text \<open>
  A model of the Go package \<open>tmux\<close>: the parser of pane listings (\<open>ListPanes\<close>), the
  pane and window operations (\<open>Pane.GetCurrentPath\<close>, \<open>Window.SplitPane\<close>) and the
  reconciliation of a declared configuration (\<open>Configuration.Apply\<close>).  The multiplexer
  is a parameter: every function takes the calls issued so far and returns them
  extended, and what a call returns is given by an environment.
\<close>

section \<open>Library functions the sources call\<close>

text \<open>
  Go strings are byte sequences; they are modelled as \<^typ>\<open>string\<close> (a list of
  8-bit characters).  The line feed is \<open>CHR 0x0A\<close>.
\<close>

definition LF :: char where
  "LF = CHR 0x0A"

text \<open>\<open>strings.Join(elems, sep)\<close>.\<close>

fun Join :: "string list \<Rightarrow> string \<Rightarrow> string" where
  "Join [] sep = []"
| "Join [x] sep = x"
| "Join (x # y # zs) sep = x @ sep @ Join (y # zs) sep"

text \<open>
  \<open>strings.Split(s, sep)\<close> for a separator of one byte (the only use in the sources is
  \<open>strings.Split(out, "\n")\<close>): the pieces between the separators, always at least one.
\<close>

fun Split :: "string \<Rightarrow> char \<Rightarrow> string list" where
  "Split [] sep = [[]]"
| "Split (c # cs) sep =
     (if c = sep then [] # Split cs sep
      else (case Split cs sep of
              [] \<Rightarrow> [[c]]
            | l # ls \<Rightarrow> (c # l) # ls))"

text \<open>\<open>strings.Contains(s, substr)\<close>.\<close>

fun Contains :: "string \<Rightarrow> string \<Rightarrow> bool" where
  "Contains [] substr = (substr = [])"
| "Contains (c # cs) substr =
     (take (length substr) (c # cs) = substr \<or> Contains cs substr)"

text \<open>
  Go errors.  \<open>Error msg\<close> is an error value carrying a message (\<open>errors.New(msg)\<close>, or
  whatever the command executor reports); \<open>ErrSyntax\<close> and \<open>ErrRange\<close> are the two
  \<open>*strconv.NumError\<close> values of \<open>strconv.Atoi\<close>, carrying the offending text.
\<close>

datatype error = Error string | ErrSyntax string | ErrRange string

text \<open>
  A Go function either returns or panics (index out of range, slice bounds out of range).
\<close>

datatype 'a exec = Normal 'a | Panic

definition isDigit :: "char \<Rightarrow> bool" where
  "isDigit c = (c \<in> set ''0123456789'')"

definition digitVal :: "char \<Rightarrow> int" where
  "digitVal c = int (of_char c) - 48"

definition decimal :: "string \<Rightarrow> int" where
  "decimal ds = foldl (\<lambda>n ch. n * 10 + digitVal ch) 0 ds"

text \<open>
  \<open>strconv.Atoi(s)\<close> with a 64-bit \<open>int\<close>: an optional sign, then one or more decimal
  digits; a syntax error otherwise, and a range error when the value does not fit
  into 64 bits (two's complement).
\<close>

definition Atoi :: "string \<Rightarrow> int \<times> error option" where
  "Atoi s =
     (let (neg, ds) =
            (case s of
               [] \<Rightarrow> (False, s)
             | c # r \<Rightarrow>
                 if c = CHR ''-'' then (True, r)
                 else if c = CHR ''+'' then (False, r)
                 else (False, s))
      in if ds = [] \<or> \<not> list_all isDigit ds then (0, Some (ErrSyntax s))
         else
           let v = (if neg then - decimal ds else decimal ds)
           in if v < - (2 ^ 63) then (- (2 ^ 63), Some (ErrRange s))
              else if 2 ^ 63 - 1 < v then (2 ^ 63 - 1, Some (ErrRange s))
              else (v, None))"

text \<open>\<open>fmt.Sprintf("%d", n)\<close> and \<open>fmt.Sprintf("%v", n)\<close> for an \<open>int\<close>.\<close>

fun showNat :: "nat \<Rightarrow> string" where
  "showNat n =
     (if n < 10 then [char_of (48 + n)]
      else showNat (n div 10) @ [char_of (48 + n mod 10)])"

declare showNat.simps [simp del]

definition showInt :: "int \<Rightarrow> string" where
  "showInt i = (if i < 0 then CHR ''-'' # showNat (nat (- i)) else showNat (nat i))"

section \<open>The regular expression of ListPanes\<close>

text \<open>
  The pattern of \<open>ListPanes\<close> is a plain sequence of literal bytes and capture groups;
  a group holds either one byte of a class (\<open>([01])\<close>) or a greedy repetition of a
  class (\<open>([0-9]+)\<close>, \<open>(.+)\<close>).
\<close>

datatype tok = Lit char | One "char \<Rightarrow> bool" | Many "char \<Rightarrow> bool"

text \<open>The class \<open>.\<close> is every byte but the line feed.\<close>

definition isAny :: "char \<Rightarrow> bool" where
  "isAny c = (c \<noteq> LF)"

definition is01 :: "char \<Rightarrow> bool" where
  "is01 c = (c = CHR ''0'' \<or> c = CHR ''1'')"

text \<open>
  Go's \<open>regexp\<close> returns the leftmost match and, among those, the one a backtracking
  search finds first.  It reads the text as UTF-8; since every literal of the pattern
  is an ASCII byte, which never occurs inside a longer UTF-8 sequence, matching byte by
  byte finds the same match.  \<open>matchHere ts s\<close> is that search anchored at the start of \<open>s\<close>:
  the captures in order and the unmatched rest.  \<open>matchMany p ts acc s\<close> continues a
  greedy group that has taken \<open>acc\<close> so far: it first tries to take one more byte, and
  only when that fails closes the group.
\<close>

function matchHere :: "tok list \<Rightarrow> string \<Rightarrow> (string list \<times> string) option"
  and matchMany :: "(char \<Rightarrow> bool) \<Rightarrow> tok list \<Rightarrow> string \<Rightarrow> string \<Rightarrow> (string list \<times> string) option"
where
  "matchHere [] s = Some ([], s)"
| "matchHere (Lit c # ts) [] = None"
| "matchHere (Lit c # ts) (x # xs) = (if x = c then matchHere ts xs else None)"
| "matchHere (One p # ts) [] = None"
| "matchHere (One p # ts) (x # xs) =
     (if p x then
        (case matchHere ts xs of
           None \<Rightarrow> None
         | Some (caps, rest) \<Rightarrow> Some ([x] # caps, rest))
      else None)"
| "matchHere (Many p # ts) [] = None"
| "matchHere (Many p # ts) (x # xs) = (if p x then matchMany p ts [x] xs else None)"
| "matchMany p ts acc [] =
     (case matchHere ts [] of
        None \<Rightarrow> None
      | Some (caps, rest) \<Rightarrow> Some (acc # caps, rest))"
| "matchMany p ts acc (x # xs) =
     (case (if p x then matchMany p ts (acc @ [x]) xs else None) of
        Some r \<Rightarrow> Some r
      | None \<Rightarrow>
          (case matchHere ts (x # xs) of
             None \<Rightarrow> None
           | Some (caps, rest) \<Rightarrow> Some (acc # caps, rest)))"
  by pat_completeness auto
termination
  by (relation "measure (\<lambda>x. case x of
                    Inl (ts, s) \<Rightarrow> 2 * length ts + length s
                  | Inr (p, ts, acc, s) \<Rightarrow> 2 * length ts + length s + 1)") auto

text \<open>
  \<open>re.FindStringSubmatch(line)\<close>: the search is tried at every start position from the
  left; the result is \<open>nil\<close> (the empty list) when nothing matches, else the matched
  text followed by the text of each group.
\<close>

fun FindStringSubmatch :: "tok list \<Rightarrow> string \<Rightarrow> string list" where
  "FindStringSubmatch re [] =
     (case matchHere re [] of
        None \<Rightarrow> []
      | Some (caps, rest) \<Rightarrow> [] # caps)"
| "FindStringSubmatch re (x # xs) =
     (case matchHere re (x # xs) of
        None \<Rightarrow> FindStringSubmatch re xs
      | Some (caps, rest) \<Rightarrow>
          take (length (x # xs) - length rest) (x # xs) # caps)"

text \<open>
  \<^verbatim>\<open>\$([0-9]+):(.+):@([0-9]+):(.+):([0-9]+):%([0-9]+):([01]):([0-9]+)\<close>
\<close>

definition paneRe :: "tok list" where
  "paneRe =
     [Lit (CHR ''$''), Many isDigit, Lit (CHR '':''), Many isAny, Lit (CHR '':''),
      Lit (CHR ''@''), Many isDigit, Lit (CHR '':''), Many isAny, Lit (CHR '':''),
      Many isDigit, Lit (CHR '':''), Lit (CHR ''%''), Many isDigit, Lit (CHR '':''),
      One is01, Lit (CHR '':''), Many isDigit]"

definition paneParts :: nat where
  "paneParts = 8"

section \<open>The data model\<close>

text \<open>The struct \<open>Pane\<close> of \<open>pane.go\<close>; a Go \<open>int\<close> is a 64-bit integer, none is computed with.\<close>

record Pane =
  ID :: int
  SessionId :: int
  SessionName :: string
  WindowId :: int
  WindowName :: string
  WindowIndex :: int
  Active :: bool
  Index :: int

text \<open>The zero value of \<open>Pane\<close>: what a named result \<open>pane Pane\<close> holds until assigned.\<close>

definition zeroPane :: Pane where
  "zeroPane =
     \<lparr>ID = 0, SessionId = 0, SessionName = [], WindowId = 0, WindowName = [],
      WindowIndex = 0, Active = False, Index = 0\<rparr>"

text \<open>The struct \<open>Window\<close>.\<close>

record Window =
  Name :: string
  Id :: int
  SessionId :: int
  SessionName :: string
  StartDirectory :: string
  Layout :: string
  Panes :: "Pane list"

text \<open>
  Modelled from the spec: the struct \<open>Session\<close> is declared outside the given sources.
  A session is "a named, identified (integer id) top-level container of Windows" that
  "carries an optional start directory"; these are the four fields \<open>Apply\<close> reads
  and writes (\<open>s.Name\<close>, \<open>s.Id\<close>, \<open>s.StartDirectory\<close>, \<open>s.Windows\<close>).
\<close>

record Session =
  Name :: string
  Id :: int
  StartDirectory :: string
  Windows :: "Window list"

text \<open>
  Modelled from the spec: the struct \<open>Server\<close> is declared outside the given sources; it
  is a "process-wide handle identifying which multiplexer instance to target (e.g., a
  socket/name)".  \<open>Apply\<close> only tests the pointer against \<open>nil\<close> and passes it on.
\<close>

type_synonym Server = string

text \<open>
  The struct \<open>Configuration\<close>.  \<open>Server\<close> is a pointer, \<open>None\<close> when \<open>nil\<close>.  \<open>Sessions\<close>
  is a slice of pointers, taken to be non-nil and pairwise distinct, so that the slice
  is modelled by the list of the sessions pointed to.  \<open>ActiveSession\<close> is a pointer that
  \<open>Apply\<close> only compares with the elements of \<open>Sessions\<close>: it is modelled by the position
  of the session it points to (\<open>None\<close> for \<open>nil\<close>; a position beyond the list for a
  session that is not in \<open>Sessions\<close>).
\<close>

record Configuration =
  Server :: "Server option"
  Sessions :: "Session list"
  ActiveSession :: "nat option"

section \<open>The command executor\<close>

text \<open>
  Every call into the multiplexer is recorded, in order.  Besides \<open>RunCmd\<close>, three
  methods that \<open>Apply\<close> calls are declared outside the given sources; each is kept as
  one recorded call with its receiver and arguments.
\<close>

datatype call =
    RunCmdCall "string list"
  | NewSessionCall Server string "string list"
  | NewWindowCall Session string "string list"
  | AttachSessionCall Session

text \<open>
  Modelled from the spec: \<open>RunCmd\<close>, \<open>Server.NewSession\<close>, \<open>Session.NewWindow\<close> and
  \<open>Session.AttachSession\<close> are declared outside the given sources.  The executor
  "runs an argument vector against the multiplexer binary, returns captured stdout,
  stderr, and a success/failure outcome"; nothing more is assumed: what each call
  returns is a parameter, a function of the calls issued so far and of the arguments.
  \<open>NewSession\<close> and \<open>NewWindow\<close> return the realized entity and an error, and
  \<open>AttachSession\<close> an error.  The three methods are taken to leave the
  configuration as it is: they act on the multiplexer only.
\<close>

record env =
  RunCmd_out :: "call list \<Rightarrow> string list \<Rightarrow> string \<times> string \<times> error option"
  NewSession_out :: "call list \<Rightarrow> Server \<Rightarrow> string \<Rightarrow> string list \<Rightarrow> Session \<times> error option"
  NewWindow_out :: "call list \<Rightarrow> Session \<Rightarrow> string \<Rightarrow> string list \<Rightarrow> Window \<times> error option"
  AttachSession_out :: "call list \<Rightarrow> Session \<Rightarrow> error option"

definition RunCmd ::
  "env \<Rightarrow> string list \<Rightarrow> call list \<Rightarrow> (string \<times> string \<times> error option) \<times> call list" where
  "RunCmd ev args log = (RunCmd_out ev log args, log @ [RunCmdCall args])"

definition NewSession ::
  "env \<Rightarrow> Server \<Rightarrow> string \<Rightarrow> string list \<Rightarrow> call list \<Rightarrow> (Session \<times> error option) \<times> call list" where
  "NewSession ev srv name extra_args log =
     (NewSession_out ev log srv name extra_args, log @ [NewSessionCall srv name extra_args])"

definition NewWindow ::
  "env \<Rightarrow> Session \<Rightarrow> string \<Rightarrow> string list \<Rightarrow> call list \<Rightarrow> (Window \<times> error option) \<times> call list" where
  "NewWindow ev s name extra_args log =
     (NewWindow_out ev log s name extra_args, log @ [NewWindowCall s name extra_args])"

definition AttachSession :: "env \<Rightarrow> Session \<Rightarrow> call list \<Rightarrow> error option \<times> call list" where
  "AttachSession ev s log = (AttachSession_out ev log s, log @ [AttachSessionCall s])"

section \<open>pane.go\<close>

definition format :: string where
  "format =
     Join [''#{session_id}'', ''#{session_name}'', ''#{window_id}'', ''#{window_name}'',
           ''#{window_index}'', ''#{pane_id}'', ''#{pane_active}'', ''#{pane_index}''] '':''"

text \<open>
  The loop of \<open>ListPanes\<close> over the lines of the output; \<open>panes\<close> is the slice built so
  far.  A line the pattern does not match is skipped; the first failing \<open>Atoi\<close> returns
  \<open>nil\<close> and its error.
\<close>

fun parseLines :: "string list \<Rightarrow> Pane list \<Rightarrow> Pane list \<times> error option" where
  "parseLines [] panes = (panes, None)"
| "parseLines (line # outLines) panes =
     (let result = FindStringSubmatch paneRe line
      in if length result \<le> paneParts then parseLines outLines panes
         else
           (case Atoi (result ! 1) of
              (_, Some errAtoi) \<Rightarrow> ([], Some errAtoi)
            | (sessionID, None) \<Rightarrow>
           (case Atoi (result ! 3) of
              (_, Some errAtoi) \<Rightarrow> ([], Some errAtoi)
            | (windowID, None) \<Rightarrow>
           (case Atoi (result ! 5) of
              (_, Some errAtoi) \<Rightarrow> ([], Some errAtoi)
            | (windowIndex, None) \<Rightarrow>
           (case Atoi (result ! 6) of
              (_, Some errAtoi) \<Rightarrow> ([], Some errAtoi)
            | (paneId, None) \<Rightarrow>
           (case Atoi (result ! 8) of
              (_, Some errAtoi) \<Rightarrow> ([], Some errAtoi)
            | (paneIndex, None) \<Rightarrow>
                parseLines outLines
                  (panes @
                    [\<lparr>ID = paneId, SessionId = sessionID, SessionName = result ! 2,
                      WindowId = windowID, WindowName = result ! 4,
                      WindowIndex = windowIndex, Active = (result ! 7 = ''1''),
                      Index = paneIndex\<rparr>])))))))"

definition ListPanes ::
  "env \<Rightarrow> string list \<Rightarrow> call list \<Rightarrow> (Pane list \<times> error option) \<times> call list" where
  "ListPanes ev args log =
     (case RunCmd ev ([''list-panes'', ''-F'', format] @ args) log of
        ((out, _, Some err), log1) \<Rightarrow> (([], Some err), log1)
      | ((out, _, None), log1) \<Rightarrow> (parseLines (Split out LF) [], log1))"

text \<open>
  \<open>Pane.GetCurrentPath\<close>: \<open>out[:len(out)-1]\<close> panics on an empty \<open>out\<close> (slice bounds out
  of range) and drops the last byte otherwise.
\<close>

definition GetCurrentPath_args :: "string list" where
  "GetCurrentPath_args = [''display-message'', ''-P'', ''-F'', ''#{pane_current_path}'']"

definition GetCurrentPath ::
  "env \<Rightarrow> Pane \<Rightarrow> call list \<Rightarrow> (string \<times> error option) exec \<times> call list" where
  "GetCurrentPath ev p log =
     (case RunCmd ev GetCurrentPath_args log of
        ((out, _, Some err), log1) \<Rightarrow> (Normal ([], Some err), log1)
      | ((out, _, None), log1) \<Rightarrow>
          if length out = 0 then (Panic, log1)
          else (Normal (take (length out - 1) out, None), log1))"

section \<open>The window operations\<close>

text \<open>\<open>Window.ListPanes\<close>.\<close>

definition Window_ListPanes ::
  "env \<Rightarrow> Window \<Rightarrow> call list \<Rightarrow> (Pane list \<times> error option) \<times> call list" where
  "Window_ListPanes ev w log =
     ListPanes ev [''-t'' @ Window.SessionName w @ '':'' @ Window.Name w] log"

text \<open>
  \<open>Window.SplitPane\<close> has a pointer receiver: the result holds the returned pane, the
  returned error and the window as the call leaves it.  \<open>panes[len(panes)-1]\<close> panics
  when \<open>panes\<close> is empty.
\<close>

definition SplitPane_args :: "Window \<Rightarrow> string list" where
  "SplitPane_args w =
     [''split-window'',
      ''-t'', Window.SessionName w @ '':'' @ Window.Name w,
      ''-c'', Window.StartDirectory w,
      ''-F'', ''#{pane_id}'']"

definition SplitPane ::
  "env \<Rightarrow> Window \<Rightarrow> call list \<Rightarrow> (Pane \<times> error option \<times> Window) exec \<times> call list" where
  "SplitPane ev w log =
     (case RunCmd ev (SplitPane_args w) log of
        ((_, err_out, err_exec), log1) \<Rightarrow>
          if err_exec \<noteq> None \<and> \<not> Contains err_out ''exit status 1''
          then (Normal (zeroPane, err_exec, w), log1)
          else
            (case Window_ListPanes ev w log1 of
               ((panes, err), log2) \<Rightarrow>
                 if err_exec \<noteq> None then (Normal (zeroPane, err, w), log2)
                 else if length panes = 0 then (Panic, log2)
                 else
                   (Normal (panes ! (length panes - 1), None,
                            w\<lparr>Panes := Panes w @ [panes ! (length panes - 1)]\<rparr>),
                    log2)))"

section \<open>Configuration.Apply\<close>

text \<open>\<open>Configuration.checkInput\<close>, as the loop over \<open>c.Sessions\<close>.\<close>

fun checkSessions :: "Session list \<Rightarrow> error option" where
  "checkSessions [] = None"
| "checkSessions (s # ss) =
     (if length (Windows s) = 0
      then Some (Error (''Session '' @ Session.Name s @ '' doesn't contain any windows!''))
      else checkSessions ss)"

definition checkInput :: "Configuration \<Rightarrow> error option" where
  "checkInput c = checkSessions (Sessions c)"

text \<open>
  The loop \<open>for idx := range orig_panes\<close> (lines 111 to 121), over the indices that
  remain.  The store \<open>w.Panes[idx] = pane\<close> panics when \<open>idx\<close> is out of range.
\<close>

fun paneLoop ::
  "env \<Rightarrow> nat list \<Rightarrow> Window \<Rightarrow> call list \<Rightarrow> (error option \<times> Window) exec \<times> call list" where
  "paneLoop ev [] w log = (Normal (None, w), log)"
| "paneLoop ev (idx # idxs) w log =
     (if idx > 0 then
        (case SplitPane ev w log of
           (Panic, log1) \<Rightarrow> (Panic, log1)
         | (Normal (pane, Some err, w1), log1) \<Rightarrow> (Normal (Some err, w1), log1)
         | (Normal (pane, None, w1), log1) \<Rightarrow>
             if idx < length (Panes w1)
             then paneLoop ev idxs (w1\<lparr>Panes := (Panes w1)[idx := pane]\<rparr>) log1
             else (Panic, log1))
      else paneLoop ev idxs w log)"

text \<open>
  Lines 79 to 106 of \<open>Apply\<close>: the start directory, then the window is either the
  initial one or created, then tagged with its session.
\<close>

definition realizeWindow ::
  "env \<Rightarrow> Session \<Rightarrow> Window \<Rightarrow> Window \<Rightarrow> call list \<Rightarrow> (error option \<times> Window) \<times> call list" where
  "realizeWindow ev s initial_window w0 log =
     (let w = (if length (Window.StartDirectory w0) = 0 \<and> length (Session.StartDirectory s) \<noteq> 0
               then w0\<lparr>Window.StartDirectory := Session.StartDirectory s\<rparr> else w0)
      in if Window.Name w = Window.Name initial_window
         then ((None,
                w\<lparr>Window.Name := Window.Name initial_window, Window.Id := 0,
                  Window.SessionName := Session.Name s, Window.SessionId := Session.Id s\<rparr>),
               log)
         else
           (let extra_args = (if length (Window.StartDirectory w) \<noteq> 0
                              then [''-c'', Window.StartDirectory w] else [])
            in case NewWindow ev s (Window.Name w) extra_args log of
                 ((window, Some err), log1) \<Rightarrow> ((Some err, w), log1)
               | ((window, None), log1) \<Rightarrow>
                   ((None,
                     w\<lparr>Window.Name := Window.Name window, Window.Id := Window.Id window,
                       Window.SessionName := Session.Name s, Window.SessionId := Session.Id s\<rparr>),
                    log1)))"

text \<open>
  Lines 108 to 121: the declared panes are kept aside, the window's panes are replaced
  by the listing (its error is discarded), and the loop splits.
\<close>

definition setupPanes ::
  "env \<Rightarrow> Window \<Rightarrow> call list \<Rightarrow> (error option \<times> Window) exec \<times> call list" where
  "setupPanes ev w log =
     (let orig_panes = Panes w
      in case Window_ListPanes ev w log of
           ((panes, _), log1) \<Rightarrow>
             paneLoop ev [0 ..< length orig_panes] (w\<lparr>Panes := panes\<rparr>) log1)"

text \<open>Lines 123 to 130: the layout, when one is declared.\<close>

definition selectLayout :: "env \<Rightarrow> Window \<Rightarrow> call list \<Rightarrow> error option \<times> call list" where
  "selectLayout ev w log =
     (if length (Layout w) \<noteq> 0 then
        (case RunCmd ev [''select-layout'', ''-t'', showInt (Window.Id w), Layout w] log of
           ((_, _, err_exec), log1) \<Rightarrow> (err_exec, log1))
      else (None, log))"

text \<open>
  The body of the loop over \<open>s.Windows\<close> (lines 78 to 133) for one window: the error
  \<open>Apply\<close> returns from it, or the window it appends to \<open>win\<close>.
\<close>

definition applyWindow ::
  "env \<Rightarrow> Session \<Rightarrow> Window \<Rightarrow> Window \<Rightarrow> call list \<Rightarrow> (error option \<times> Window) exec \<times> call list" where
  "applyWindow ev s initial_window w0 log =
     (case realizeWindow ev s initial_window w0 log of
        ((Some err, w1), log1) \<Rightarrow> (Normal (Some err, w1), log1)
      | ((None, w1), log1) \<Rightarrow>
          (case setupPanes ev w1 log1 of
             (Panic, log2) \<Rightarrow> (Panic, log2)
           | (Normal (Some err, w2), log2) \<Rightarrow> (Normal (Some err, w2), log2)
           | (Normal (None, w2), log2) \<Rightarrow>
               (case selectLayout ev w2 log2 of
                  (err_exec, log3) \<Rightarrow> (Normal (err_exec, w2), log3))))"

text \<open>The loop over \<open>s.Windows\<close>; \<open>win\<close> is the slice of realized windows built so far.\<close>

fun windowLoop ::
  "env \<Rightarrow> Session \<Rightarrow> Window \<Rightarrow> Window list \<Rightarrow> Window list \<Rightarrow> call list
     \<Rightarrow> (error option \<times> Window list) exec \<times> call list" where
  "windowLoop ev s initial_window [] win log = (Normal (None, win), log)"
| "windowLoop ev s initial_window (w # ws) win log =
     (case applyWindow ev s initial_window w log of
        (Panic, log1) \<Rightarrow> (Panic, log1)
      | (Normal (Some err, w1), log1) \<Rightarrow> (Normal (Some err, win), log1)
      | (Normal (None, w1), log1) \<Rightarrow> windowLoop ev s initial_window ws (win @ [w1]) log1)"

text \<open>
  Lines 56 to 74: the session is created with its initial window and attached when it
  is the active one; the result of \<open>AttachSession\<close> is not looked at.
\<close>

definition enterSession ::
  "env \<Rightarrow> Server \<Rightarrow> nat option \<Rightarrow> nat \<Rightarrow> Session \<Rightarrow> Window \<Rightarrow> call list
     \<Rightarrow> (error option \<times> Session) \<times> call list" where
  "enterSession ev srv active si s initial_window log =
     (let extra_args =
            [''-n'', Window.Name initial_window] @
            (if length (Session.StartDirectory s) \<noteq> 0
             then [''-c'', Session.StartDirectory s] else [])
      in case NewSession ev srv (Session.Name s) extra_args log of
           ((session, Some err), log1) \<Rightarrow> ((Some err, s), log1)
         | ((session, None), log1) \<Rightarrow>
             (let s1 = s\<lparr>Session.Name := Session.Name session,
                          Session.Id := Session.Id session\<rparr>
              in if active = Some si
                 then ((None, s1), snd (AttachSession ev s1 log1))
                 else ((None, s1), log1)))"

text \<open>
  The body of the loop over \<open>c.Sessions\<close> (lines 52 to 137) for the session at position
  \<open>si\<close>: the error \<open>Apply\<close> returns from it, and the session as the call leaves it.
  \<open>s.Windows[0]\<close> panics on an empty slice.
\<close>

definition applySession ::
  "env \<Rightarrow> Server \<Rightarrow> nat option \<Rightarrow> nat \<Rightarrow> Session \<Rightarrow> call list
     \<Rightarrow> (error option \<times> Session) exec \<times> call list" where
  "applySession ev srv active si s log =
     (case Windows s of
        [] \<Rightarrow> (Panic, log)
      | initial_window # _ \<Rightarrow>
          (case enterSession ev srv active si s initial_window log of
             ((Some err, s1), log1) \<Rightarrow> (Normal (Some err, s1), log1)
           | ((None, s1), log1) \<Rightarrow>
               (case windowLoop ev s1 initial_window (Windows s1) [] log1 of
                  (Panic, log2) \<Rightarrow> (Panic, log2)
                | (Normal (Some err, win), log2) \<Rightarrow> (Normal (Some err, s1), log2)
                | (Normal (None, win), log2) \<Rightarrow>
                    (Normal (None, s1\<lparr>Windows := win\<rparr>), log2))))"

text \<open>
  The loop over \<open>c.Sessions\<close>, from position \<open>si\<close> on: the error \<open>Apply\<close> returns and the
  sessions as the call leaves them.
\<close>

fun sessionLoop ::
  "env \<Rightarrow> Server \<Rightarrow> nat option \<Rightarrow> nat \<Rightarrow> Session list \<Rightarrow> call list
     \<Rightarrow> (error option \<times> Session list) exec \<times> call list" where
  "sessionLoop ev srv active si [] log = (Normal (None, []), log)"
| "sessionLoop ev srv active si (s # ss) log =
     (case applySession ev srv active si s log of
        (Panic, log1) \<Rightarrow> (Panic, log1)
      | (Normal (Some err, s1), log1) \<Rightarrow> (Normal (Some err, s1 # ss), log1)
      | (Normal (None, s1), log1) \<Rightarrow>
          (case sessionLoop ev srv active (si + 1) ss log1 of
             (Panic, log2) \<Rightarrow> (Panic, log2)
           | (Normal (err, ss1), log2) \<Rightarrow> (Normal (err, s1 # ss1), log2)))"

text \<open>
  \<open>Configuration.Apply\<close>: the returned error (\<open>None\<close> for \<open>nil\<close>), the configuration as the
  call leaves it, and the calls issued.
\<close>

definition Apply ::
  "env \<Rightarrow> Configuration \<Rightarrow> call list \<Rightarrow> (error option \<times> Configuration) exec \<times> call list" where
  "Apply ev c log =
     (case Server c of
        None \<Rightarrow> (Normal (Some (Error ''Server was not initialized''), c), log)
      | Some srv \<Rightarrow>
          if length (Sessions c) = 0
          then (Normal (Some (Error ''Requiered at least single tmux session to apply configuration''), c), log)
          else
            (case checkInput c of
               Some err \<Rightarrow> (Normal (Some err, c), log)
             | None \<Rightarrow>
                 (case sessionLoop ev srv (ActiveSession c) 0 (Sessions c) log of
                    (Panic, log1) \<Rightarrow> (Panic, log1)
                  | (Normal (err, ss), log1) \<Rightarrow> (Normal (err, c\<lparr>Sessions := ss\<rparr>), log1))))"

section \<open>Example environments and configurations\<close>

text \<open>
  A small multiplexer: a window has one pane when it is created and one more after
  each \<open>split-window\<close>; \<open>list-panes\<close> lists the panes of the window created last, one
  line per pane in the format of \<open>ListPanes\<close>; every call succeeds.
\<close>

definition paneLine :: "nat \<Rightarrow> string" where
  "paneLine i =
     ''$1:dev:@1:edit:0:%'' @ showNat i @ '':'' @ (if i = 0 then ''1'' else ''0'') @
     '':'' @ showNat i"

definition listing :: "nat \<Rightarrow> string" where
  "listing n = concat (map (\<lambda>i. paneLine i @ [LF]) [0 ..< n])"

definition isSplit :: "call \<Rightarrow> bool" where
  "isSplit c = (case c of RunCmdCall (a # _) \<Rightarrow> a = ''split-window'' | _ \<Rightarrow> False)"

definition isCreate :: "call \<Rightarrow> bool" where
  "isCreate c =
     (case c of NewSessionCall _ _ _ \<Rightarrow> True | NewWindowCall _ _ _ \<Rightarrow> True | _ \<Rightarrow> False)"

definition realizedSession :: "string \<Rightarrow> Session" where
  "realizedSession name = \<lparr>Session.Name = name, Id = 1, StartDirectory = [], Windows = []\<rparr>"

definition realizedWindow :: "call list \<Rightarrow> Session \<Rightarrow> string \<Rightarrow> Window" where
  "realizedWindow log s name =
     \<lparr>Window.Name = name, Id = int (length log), SessionId = Session.Id s,
      SessionName = Session.Name s, StartDirectory = [], Layout = [], Panes = []\<rparr>"

definition tmuxEnv :: env where
  "tmuxEnv =
     \<lparr>RunCmd_out = (\<lambda>log args.
        if take 1 args = [''list-panes'']
        then (listing (1 + length (filter isSplit (takeWhile (\<lambda>c. \<not> isCreate c) (rev log)))),
              [], None)
        else ([], [], None)),
      NewSession_out = (\<lambda>log srv name extra_args. (realizedSession name, None)),
      NewWindow_out = (\<lambda>log s name extra_args. (realizedWindow log s name, None)),
      AttachSession_out = (\<lambda>log s. None)\<rparr>"

text \<open>
  A multiplexer whose commands all fail: \<open>RunCmd\<close> and \<open>AttachSession\<close> report an
  error; sessions and windows are still created.
\<close>

definition brokenEnv :: env where
  "brokenEnv =
     \<lparr>RunCmd_out = (\<lambda>log args. ([], ''no server running'', Some (Error ''exit status 2''))),
      NewSession_out = (\<lambda>log srv name extra_args. (realizedSession name, None)),
      NewWindow_out = (\<lambda>log s name extra_args. (realizedWindow log s name, None)),
      AttachSession_out = (\<lambda>log s. Some (Error ''exit status 2''))\<rparr>"

text \<open>
  A multiplexer on which \<open>split-window\<close> fails with the text \<open>SplitPane\<close> tolerates, and
  whose windows list two panes.
\<close>

definition existsEnv :: env where
  "existsEnv =
     \<lparr>RunCmd_out = (\<lambda>log args.
        if take 1 args = [''split-window'']
        then ([], ''exit status 1'', Some (Error ''exit status 1''))
        else if take 1 args = [''list-panes''] then (listing 2, [], None)
        else ([], [], None)),
      NewSession_out = (\<lambda>log srv name extra_args. (realizedSession name, None)),
      NewWindow_out = (\<lambda>log s name extra_args. (realizedWindow log s name, None)),
      AttachSession_out = (\<lambda>log s. None)\<rparr>"

text \<open>A declared window: a name and as many declared panes as wanted.\<close>

definition declWindow :: "string \<Rightarrow> nat \<Rightarrow> Window" where
  "declWindow name n =
     \<lparr>Window.Name = name, Id = 0, SessionId = 0, SessionName = [], StartDirectory = [],
      Layout = [], Panes = replicate n zeroPane\<rparr>"

definition declSession :: "string \<Rightarrow> Window list \<Rightarrow> Session" where
  "declSession name ws = \<lparr>Session.Name = name, Id = 0, StartDirectory = [], Windows = ws\<rparr>"

definition cfgEmpty :: Configuration where
  "cfgEmpty = \<lparr>Server = Some ''default'', Sessions = [], ActiveSession = None\<rparr>"

definition cfgNoServer :: Configuration where
  "cfgNoServer = \<lparr>Server = None, Sessions = [], ActiveSession = None\<rparr>"

definition cfgWindowless :: Configuration where
  "cfgWindowless =
     \<lparr>Server = Some ''default'',
      Sessions = [declSession ''dev'' [declWindow ''edit'' 1], declSession ''ops'' [],
                  declSession ''tmp'' []],
      ActiveSession = None\<rparr>"

definition cfgWindowlessNoServer :: Configuration where
  "cfgWindowlessNoServer =
     \<lparr>Server = None, Sessions = [declSession ''ops'' []], ActiveSession = None\<rparr>"

text \<open>A multiplexer whose commands all succeed and print nothing.\<close>

definition silentEnv :: env where
  "silentEnv =
     \<lparr>RunCmd_out = (\<lambda>log args. ([], [], None)),
      NewSession_out = (\<lambda>log srv name extra_args. (realizedSession name, None)),
      NewWindow_out = (\<lambda>log s name extra_args. (realizedWindow log s name, None)),
      AttachSession_out = (\<lambda>log s. None)\<rparr>"

text \<open>A multiplexer whose commands all succeed and print the given text.\<close>

definition printEnv :: "string \<Rightarrow> env" where
  "printEnv out =
     \<lparr>RunCmd_out = (\<lambda>log args. (out, [], None)),
      NewSession_out = (\<lambda>log srv name extra_args. (realizedSession name, None)),
      NewWindow_out = (\<lambda>log s name extra_args. (realizedWindow log s name, None)),
      AttachSession_out = (\<lambda>log s. None)\<rparr>"

text \<open>A realized window of the realized session \<open>dev\<close>.\<close>

definition liveWindow :: "string \<Rightarrow> int \<Rightarrow> Pane list \<Rightarrow> Window" where
  "liveWindow name n ps =
     \<lparr>Window.Name = name, Id = n, SessionId = 1, SessionName = ''dev'',
      StartDirectory = [], Layout = [], Panes = ps\<rparr>"

text \<open>
  Configurations with one session \<open>dev\<close>: a single window of one pane; a single window
  of two panes; a window of three panes and a second window of one pane.
\<close>

definition cfgOnePane :: Configuration where
  "cfgOnePane =
     \<lparr>Server = Some ''default'', Sessions = [declSession ''dev'' [declWindow ''edit'' 1]],
      ActiveSession = Some 0\<rparr>"

definition cfgTwoPanes :: Configuration where
  "cfgTwoPanes =
     \<lparr>Server = Some ''default'', Sessions = [declSession ''dev'' [declWindow ''edit'' 2]],
      ActiveSession = None\<rparr>"

definition cfgDev :: Configuration where
  "cfgDev =
     \<lparr>Server = Some ''default'',
      Sessions = [declSession ''dev'' [declWindow ''edit'' 3, declWindow ''logs'' 1]],
      ActiveSession = Some 0\<rparr>"

text \<open>A configuration as \<open>Apply\<close> leaves it: the session \<open>dev\<close> with realized windows.\<close>

definition applied :: "Configuration \<Rightarrow> Window list \<Rightarrow> Configuration" where
  "applied c ws = c\<lparr>Sessions := [(realizedSession ''dev'')\<lparr>Windows := ws\<rparr>]\<rparr>"

text \<open>
  Two lines that are not well formed: a pane identifier beyond the range of a 64-bit
  integer, and a window identifier that is not a number.
\<close>

definition overflowLine :: string where
  "overflowLine = ''$1:dev:@1:edit:0:%'' @ ''99999999999999999999'' @ '':0:1''"

definition malformedLine :: string where
  "malformedLine = ''$1:dev:@'' @ ''x'' @ '':edit:0:%0:1:0''"


definition listCall :: "string \<Rightarrow> call" where
  "listCall name = RunCmdCall [''list-panes'', ''-F'', format, ''-tdev:'' @ name]"

definition splitCall :: "string \<Rightarrow> call" where
  "splitCall name = RunCmdCall (SplitPane_args (liveWindow name 0 []))"



text \<open>
  The session of \<open>cfgOnePane\<close> and of \<open>cfgTwoPanes\<close> once created, and the calls of
  \<open>Apply\<close> on \<open>cfgTwoPanes\<close> with the multiplexer whose commands all fail.
\<close>

definition createdSession :: "nat \<Rightarrow> Session" where
  "createdSession n = (declSession ''dev'' [declWindow ''edit'' n])\<lparr>Session.Id := 1\<rparr>"

definition brokenCalls :: "call list" where
  "brokenCalls =
     [NewSessionCall ''default'' ''dev'' [''-n'', ''edit''], listCall ''edit'',
      splitCall ''edit'']"


text \<open>
  The small multiplexer with a failing attach, and the configuration \<open>cfgOnePane\<close> with
  no active session.
\<close>

definition attachFailEnv :: env where
  "attachFailEnv = tmuxEnv\<lparr>AttachSession_out := (\<lambda>log s. Some (Error ''exit status 1''))\<rparr>"

definition cfgDetached :: Configuration where
  "cfgDetached = cfgOnePane\<lparr>ActiveSession := None\<rparr>"

section \<open>The documented line format\<close>

text \<open>
  The line the multiplexer prints for a pane under the format of \<open>ListPanes\<close>:
  \<^verbatim>\<open>$sessionId:sessionName:@windowId:windowName:windowIndex:%paneId:active:paneIndex\<close>.
\<close>

definition formatPane :: "Pane \<Rightarrow> string" where
  "formatPane p =
     ''$'' @ showInt (Pane.SessionId p) @ '':'' @ Pane.SessionName p @
     '':@'' @ showInt (WindowId p) @ '':'' @ WindowName p @
     '':'' @ showInt (WindowIndex p) @ '':%'' @ showInt (ID p) @
     '':'' @ (if Active p then ''1'' else ''0'') @ '':'' @ showInt (Index p)"

text \<open>
  A pane whose line is well formed: the five numbers are non-negative and fit a 64-bit
  \<open>int\<close>, the names are not empty and hold no line feed, and the window name holds no
  colon.
\<close>

definition isId :: "int \<Rightarrow> bool" where
  "isId n = (0 \<le> n \<and> n < 2 ^ 63)"

definition wellFormed :: "Pane \<Rightarrow> bool" where
  "wellFormed p =
     (isId (ID p) \<and> isId (Pane.SessionId p) \<and> isId (WindowId p) \<and> isId (WindowIndex p) \<and>
      isId (Index p) \<and>
      Pane.SessionName p \<noteq> [] \<and> LF \<notin> set (Pane.SessionName p) \<and>
      WindowName p \<noteq> [] \<and> LF \<notin> set (WindowName p) \<and> CHR '':'' \<notin> set (WindowName p))"

text \<open>The pane that the line \<open>paneLine i\<close> of the example multiplexer describes.\<close>

definition listedPane :: "nat \<Rightarrow> Pane" where
  "listedPane i =
     \<lparr>ID = int i, SessionId = 1, SessionName = ''dev'', WindowId = 1, WindowName = ''edit'',
      WindowIndex = 0, Active = (i = 0), Index = int i\<rparr>"


text \<open>The number of literal colons a pattern asks for.\<close>

definition colons :: "tok list \<Rightarrow> nat" where
  "colons ts = length (filter (\<lambda>t. t = Lit (CHR '':'')) ts)"

text \<open>
  The capture groups of a pattern, in order, and what the text of a group satisfies:
  one byte of the class, or one or more bytes of the class.
\<close>

definition groups :: "tok list \<Rightarrow> tok list" where
  "groups ts = filter (\<lambda>t. case t of Lit c \<Rightarrow> False | _ \<Rightarrow> True) ts"

definition groupOK :: "tok \<Rightarrow> string \<Rightarrow> bool" where
  "groupOK t cap =
     (case t of
        Lit c \<Rightarrow> False
      | One p \<Rightarrow> length cap = 1 \<and> list_all p cap
      | Many p \<Rightarrow> cap \<noteq> [] \<and> list_all p cap)"

section \<open>Program points of Apply\<close>

text \<open>
  \<open>windowEntry ev c log si wi\<close>: when \<open>Apply\<close>, started with the calls \<open>log\<close> already
  issued, reaches the body of the loop over \<open>s.Windows\<close> for the window at position
  \<open>wi\<close> of the session at position \<open>si\<close> (line 79), the session as it is then (its
  realized name and identifier, its declared windows) and the calls issued so far.
  \<open>None\<close> when \<open>Apply\<close> returns or panics before.
\<close>

definition windowEntry ::
  "env \<Rightarrow> Configuration \<Rightarrow> call list \<Rightarrow> nat \<Rightarrow> nat \<Rightarrow> (Session \<times> call list) option" where
  "windowEntry ev c log si wi =
     (case Server c of
        None \<Rightarrow> None
      | Some srv \<Rightarrow>
          if length (Sessions c) = 0 \<or> checkInput c \<noteq> None \<or> \<not> si < length (Sessions c) \<or>
             \<not> wi < length (Windows (Sessions c ! si))
          then None
          else
            (case sessionLoop ev srv (ActiveSession c) 0 (take si (Sessions c)) log of
               (Normal (None, _), log1) \<Rightarrow>
                 (case enterSession ev srv (ActiveSession c) si (Sessions c ! si)
                         (Windows (Sessions c ! si) ! 0) log1 of
                    ((None, s1), log2) \<Rightarrow>
                      (case windowLoop ev s1 (Windows (Sessions c ! si) ! 0)
                              (take wi (Windows s1)) [] log2 of
                         (Normal (None, _), log3) \<Rightarrow> Some (s1, log3)
                       | _ \<Rightarrow> None)
                  | _ \<Rightarrow> None)
             | _ \<Rightarrow> None))"

text \<open>
  \<open>paneSetupEntry ev c log si wi\<close>: the same for line 108, where the panes of that window
  are set up: the window as it is then (realized and tagged with its session, its panes
  still the declared ones) and the calls issued so far.
\<close>

definition paneSetupEntry ::
  "env \<Rightarrow> Configuration \<Rightarrow> call list \<Rightarrow> nat \<Rightarrow> nat \<Rightarrow> (Window \<times> call list) option" where
  "paneSetupEntry ev c log si wi =
     (case windowEntry ev c log si wi of
        None \<Rightarrow> None
      | Some (s1, log1) \<Rightarrow>
          (case realizeWindow ev s1 (Windows (Sessions c ! si) ! 0)
                  (Windows (Sessions c ! si) ! wi) log1 of
             ((None, w1), log2) \<Rightarrow> Some (w1, log2)
           | _ \<Rightarrow> None))"

text \<open>
  The panes that \<open>n\<close> calls of \<open>SplitPane\<close> in a row return, each call starting from
  the window and the calls that the one before left; the list stops at the first call
  that panics or returns an error.
\<close>

fun splitResults :: "env \<Rightarrow> Window \<Rightarrow> call list \<Rightarrow> nat \<Rightarrow> Pane list" where
  "splitResults ev w log 0 = []"
| "splitResults ev w log (Suc n) =
     (case SplitPane ev w log of
        (Normal (pane, None, w1), log1) \<Rightarrow> pane # splitResults ev w1 log1 n
      | _ \<Rightarrow> [])"

section \<open>Calls issued for a window\<close>



text \<open>
  The start directory a window is created with: its own when set, else the session's;
  and the extra arguments that pass it to the window-creation call.
\<close>

definition resolvedDirectory :: "Session \<Rightarrow> Window \<Rightarrow> string" where
  "resolvedDirectory s w =
     (if Window.StartDirectory w = [] \<and> Session.StartDirectory s \<noteq> []
      then Session.StartDirectory s else Window.StartDirectory w)"

definition NewWindow_args :: "Session \<Rightarrow> Window \<Rightarrow> string list" where
  "NewWindow_args s w =
     (if resolvedDirectory s w \<noteq> [] then [''-c'', resolvedDirectory s w] else [])"



section \<open>Errors that Apply has to return\<close>

text \<open>
  \<open>fatal ev pre call\<close>: the error of a recorded call that \<open>Apply\<close> has to return, \<open>pre\<close>
  being the calls issued before it: the error of a session creation, of a window
  creation, of a layout selection, and of a \<open>split-window\<close> whose error text does not
  hold \<open>exit status 1\<close>.  No other call has one.
\<close>

fun fatal :: "env \<Rightarrow> call list \<Rightarrow> call \<Rightarrow> error option" where
  "fatal ev pre (NewSessionCall srv name extra_args) =
     snd (NewSession_out ev pre srv name extra_args)"
| "fatal ev pre (NewWindowCall s name extra_args) =
     snd (NewWindow_out ev pre s name extra_args)"
| "fatal ev pre (AttachSessionCall s) = None"
| "fatal ev pre (RunCmdCall args) =
     (case RunCmd_out ev pre args of
        (out, err_out, err_exec) \<Rightarrow>
          if take 1 args = [''select-layout''] then err_exec
          else if take 1 args = [''split-window''] \<and> \<not> Contains err_out ''exit status 1''
          then err_exec
          else None)"

text \<open>What a function returned as its error; \<open>None\<close> when it panicked.\<close>

definition returned :: "(error option \<times> 'a) exec \<Rightarrow> error option option" where
  "returned r = (case r of Panic \<Rightarrow> None | Normal (err, _) \<Rightarrow> Some err)"

text \<open>
  \<open>propagated ev log ext ro\<close>: among the calls \<open>ext\<close> issued after \<open>log\<close>, only the last
  can have failed with an error that has to be returned, and then \<open>ro\<close> is that error
  returned.
\<close>

definition propagated :: "env \<Rightarrow> call list \<Rightarrow> call list \<Rightarrow> error option option \<Rightarrow> bool" where
  "propagated ev log ext ro =
     (\<forall>k e. k < length ext \<and> fatal ev (log @ take k ext) (ext ! k) = Some e \<longrightarrow>
        Suc k = length ext \<and> ro = Some (Some e))"

section \<open>Validation\<close>

lemma checkSessions_find:
  "find (\<lambda>s. Windows s = []) ss = Some s \<Longrightarrow>
   checkSessions ss =
     Some (Error (''Session '' @ Session.Name s @ '' doesn't contain any windows!''))"
  by (induction ss) (auto split: if_splits)

lemma find_windowless:
  "s \<in> set ss \<Longrightarrow> Windows s = [] \<Longrightarrow> \<exists>s0. find (\<lambda>s. Windows s = []) ss = Some s0"
  by (induction ss) auto

text \<open>
  C5 (amended).  For every configuration that has a server and whose list of sessions
  is empty, \<open>Apply\<close> returns the error "Requiered at least single tmux session to apply
  configuration", leaves the configuration as it is and issues no call.
\<close>

theorem Apply_no_sessions:
  assumes "Server c = Some srv" and "Sessions c = []"
  shows "Apply ev c log =
           (Normal (Some (Error ''Requiered at least single tmux session to apply configuration''), c),
            log)"
  using assms by (simp add: Apply_def)

theorem Apply_no_sessions_witness:
  "Server cfgEmpty = Some ''default'' \<and> Sessions cfgEmpty = [] \<and>
   Apply tmuxEnv cfgEmpty [] =
     (Normal (Some (Error ''Requiered at least single tmux session to apply configuration''), cfgEmpty),
      [])"
  using Apply_no_sessions [of cfgEmpty "''default''" tmuxEnv "[]"]
  by (simp add: cfgEmpty_def)

text \<open>
  C5 as stated fails: without a server the empty list of sessions is not reported, the
  missing server is.
\<close>

theorem Apply_no_sessions_counterexample:
  "Sessions cfgNoServer = [] \<and>
   Apply tmuxEnv cfgNoServer [] =
     (Normal (Some (Error ''Server was not initialized''), cfgNoServer), []) \<and>
   Error ''Server was not initialized'' \<noteq>
     Error ''Requiered at least single tmux session to apply configuration''"
  by (simp add: Apply_def cfgNoServer_def)

text \<open>
  C6 (amended).  For every configuration that has a server and in which some session
  has no window, \<open>Apply\<close> returns the error "Session NAME doesn't contain any windows!"
  where NAME is the name of the first such session in the list, and it issues no call
  at all: the configuration and the recorded calls are as before.
\<close>

theorem Apply_windowless_session:
  assumes "Server c = Some srv" and "s \<in> set (Sessions c)" and "Windows s = []"
  shows "\<exists>s0. find (\<lambda>s. Windows s = []) (Sessions c) = Some s0 \<and>
           Apply ev c log =
             (Normal (Some (Error (''Session '' @ Session.Name s0 @
                                   '' doesn't contain any windows!'')), c),
              log)"
proof -
  from assms(2,3) obtain s0 where f: "find (\<lambda>s. Windows s = []) (Sessions c) = Some s0"
    using find_windowless by blast
  have ne: "Sessions c \<noteq> []" using assms(2) by auto
  from f have "checkInput c =
      Some (Error (''Session '' @ Session.Name s0 @ '' doesn't contain any windows!''))"
    unfolding checkInput_def by (rule checkSessions_find)
  with assms(1) ne f show ?thesis by (simp add: Apply_def)
qed

theorem Apply_windowless_session_witness:
  "Server cfgWindowless = Some ''default'' \<and>
   declSession ''tmp'' [] \<in> set (Sessions cfgWindowless) \<and>
   Windows (declSession ''tmp'' []) = [] \<and>
   find (\<lambda>s. Windows s = []) (Sessions cfgWindowless) = Some (declSession ''ops'' []) \<and>
   Apply tmuxEnv cfgWindowless [] =
     (Normal (Some (Error ''Session ops doesn't contain any windows!''), cfgWindowless), [])"
  using Apply_windowless_session [of cfgWindowless "''default''" "declSession ''tmp'' []" tmuxEnv "[]"]
  by (simp add: cfgWindowless_def declSession_def declWindow_def)

text \<open>
  C6 as stated fails twice: without a server the session without windows is not
  reported; and with two such sessions the error names the first, not the second.
\<close>

theorem Apply_windowless_session_counterexample:
  "Windows (declSession ''ops'' []) = [] \<and>
   declSession ''ops'' [] \<in> set (Sessions cfgWindowlessNoServer) \<and>
   Apply tmuxEnv cfgWindowlessNoServer [] =
     (Normal (Some (Error ''Server was not initialized''), cfgWindowlessNoServer), []) \<and>
   Windows (declSession ''tmp'' []) = [] \<and>
   declSession ''tmp'' [] \<in> set (Sessions cfgWindowless) \<and>
   Apply tmuxEnv cfgWindowless [] =
     (Normal (Some (Error ''Session ops doesn't contain any windows!''), cfgWindowless), [])"
  by (simp add: Apply_def checkInput_def cfgWindowlessNoServer_def cfgWindowless_def
        declSession_def declWindow_def)

section \<open>GetCurrentPath\<close>

text \<open>
  What \<open>GetCurrentPath\<close> returns when it succeeds: the standard output of the command
  without its last byte.
\<close>

lemma GetCurrentPath_drops_last_byte:
  assumes "GetCurrentPath ev p log = (Normal (path, None), log')"
  shows "\<exists>out err_out.
           RunCmd_out ev log GetCurrentPath_args = (out, err_out, None) \<and>
           out \<noteq> [] \<and> path = butlast out \<and> out = path @ [last out] \<and>
           (\<forall>q. out = q @ [LF] \<longrightarrow> path = q)"
proof -
  obtain out err_out err where r: "RunCmd_out ev log GetCurrentPath_args = (out, err_out, err)"
    by (metis prod_cases3)
  from assms r have e: "err = None" and ne: "out \<noteq> []" and p: "path = take (length out - 1) out"
    by (auto simp: GetCurrentPath_def RunCmd_def split: option.splits if_splits)
  from p have b: "path = butlast out" by (simp add: butlast_conv_take)
  from b ne have "out = path @ [last out]" by simp
  with r e ne b show ?thesis by auto
qed

text \<open>
  C9.  The code at outputs that do not end in a line terminator.  The comment on line
  129 of \<open>pane.go\<close> says that the trailing terminator is removed; line 130 removes the
  last byte whatever it is.  The command succeeds and prints \<open>/tmp\<close> with no terminator:
  \<open>GetCurrentPath\<close> returns \<open>/tm\<close> and no error, which is not the output with a
  trailing terminator removed.  The command succeeds and prints nothing:
  \<open>GetCurrentPath\<close> panics.
\<close>

theorem GetCurrentPath_chops_last_byte:
  "RunCmd_out (printEnv ''/tmp'') [] GetCurrentPath_args = (''/tmp'', [], None) \<and>
   GetCurrentPath (printEnv ''/tmp'') zeroPane [] =
     (Normal (''/tm'', None), [RunCmdCall GetCurrentPath_args]) \<and>
   ''/tm'' \<noteq> ''/tmp'' \<and> ''/tm'' @ [LF] \<noteq> ''/tmp'' \<and> ''/tm'' @ [CHR 0x0D] \<noteq> ''/tmp'' \<and>
   RunCmd_out (printEnv []) [] GetCurrentPath_args = ([], [], None) \<and>
   GetCurrentPath (printEnv []) zeroPane [] = (Panic, [RunCmdCall GetCurrentPath_args])"
  by (simp add: GetCurrentPath_def RunCmd_def printEnv_def LF_def)

section \<open>SplitPane\<close>

text \<open>
  C10.  \<open>SplitPane\<close> reads the last element of the listing it asks for after the split
  without checking that there is one.  With \<open>err_exec\<close> the error of the \<open>split-window\<close>
  command and \<open>panes\<close> the listing asked for next: \<open>SplitPane\<close> panics exactly when the
  command succeeded and the listing is empty; when the command succeeded and the
  listing is not empty, it returns the last pane listed and appends it to the window's
  panes.
\<close>

theorem SplitPane_panics_iff_listing_empty:
  assumes "RunCmd ev (SplitPane_args w) log = ((out, err_out, err_exec), log1)"
      and "Window_ListPanes ev w log1 = ((panes, err), log2)"
  shows "(fst (SplitPane ev w log) = Panic) = (err_exec = None \<and> panes = []) \<and>
         (err_exec = None \<and> panes \<noteq> [] \<longrightarrow>
            SplitPane ev w log =
              (Normal (last panes, None, w\<lparr>Panes := Panes w @ [last panes]\<rparr>), log2))"
  using assms by (auto simp: SplitPane_def last_conv_nth)

theorem SplitPane_panics_iff_listing_empty_witness:
  "RunCmd silentEnv (SplitPane_args (liveWindow ''edit'' 0 [])) [] =
     (([], [], None), [RunCmdCall (SplitPane_args (liveWindow ''edit'' 0 []))]) \<and>
   Window_ListPanes silentEnv (liveWindow ''edit'' 0 []) [RunCmdCall (SplitPane_args (liveWindow ''edit'' 0 []))] =
     (([], None),
      [RunCmdCall (SplitPane_args (liveWindow ''edit'' 0 [])),
       RunCmdCall [''list-panes'', ''-F'', format, ''-tdev:edit'']]) \<and>
   fst (SplitPane silentEnv (liveWindow ''edit'' 0 []) []) = Panic"
proof -
  have a: "RunCmd silentEnv (SplitPane_args (liveWindow ''edit'' 0 [])) [] =
     (([], [], None), [RunCmdCall (SplitPane_args (liveWindow ''edit'' 0 []))])"
    by (simp add: RunCmd_def silentEnv_def)
  have b: "Window_ListPanes silentEnv (liveWindow ''edit'' 0 []) [RunCmdCall (SplitPane_args (liveWindow ''edit'' 0 []))] =
     (([], None),
      [RunCmdCall (SplitPane_args (liveWindow ''edit'' 0 [])),
       RunCmdCall [''list-panes'', ''-F'', format, ''-tdev:edit'']])"
    by (simp add: Window_ListPanes_def ListPanes_def RunCmd_def silentEnv_def liveWindow_def
          paneRe_def paneParts_def)
  from a b SplitPane_panics_iff_listing_empty [OF a b] show ?thesis by simp
qed

lemma SplitPane_tolerated:
  assumes "RunCmd ev (SplitPane_args w) log = ((out, err_out, Some e), log1)"
      and "Contains err_out ''exit status 1''"
      and "Window_ListPanes ev w log1 = ((panes, err), log2)"
  shows "SplitPane ev w log = (Normal (zeroPane, err, w), log2)"
  using assms by (simp add: SplitPane_def)

text \<open>
  C2.  The code at the input the claim is about: \<open>split-window\<close> fails with the text
  \<open>SplitPane\<close> tolerates, and the window then lists two panes.  \<open>SplitPane\<close> returns no
  error, but the pane it returns is the zero value, not the last pane listed, and the
  window's panes are left as they were.  \<open>Apply\<close> then stores the zero pane over the
  second pane listed before the split: the realized window has the two panes it had
  before the split, the second one overwritten by the zero value.
\<close>

theorem SplitPane_already_exists:
  "snd (snd (RunCmd_out existsEnv [] (SplitPane_args (liveWindow ''edit'' 0 [zeroPane])))) =
     Some (Error ''exit status 1'') \<and>
   Contains (fst (snd (RunCmd_out existsEnv [] (SplitPane_args (liveWindow ''edit'' 0 [zeroPane])))))
     ''exit status 1'' \<and>
   length (fst (fst (Window_ListPanes existsEnv (liveWindow ''edit'' 0 [zeroPane])
                       [RunCmdCall (SplitPane_args (liveWindow ''edit'' 0 [zeroPane]))]))) = 2 \<and>
   fst (SplitPane existsEnv (liveWindow ''edit'' 0 [zeroPane]) []) =
     Normal (zeroPane, None, liveWindow ''edit'' 0 [zeroPane]) \<and>
   fst (Apply existsEnv cfgTwoPanes []) =
     Normal (None, applied cfgTwoPanes [liveWindow ''edit'' 0 [listedPane 0, zeroPane]])"
  by code_simp

section \<open>Decimal numbers and the pattern\<close>

lemma digits_upto_10: "list_all (\<lambda>n. isDigit (char_of (48 + n))) [0 ..< 10 :: nat]"
  by code_simp

lemma isDigit_char_of: "(n::nat) < 10 \<Longrightarrow> isDigit (char_of (48 + n))"
  using digits_upto_10 by (simp add: list_all_iff del: upt_Suc)

lemma digitVal_char_of: "(n::nat) < 10 \<Longrightarrow> digitVal (char_of (48 + n)) = int n"
  by (simp add: digitVal_def)

lemma showNat_digits: "list_all isDigit (showNat n)"
proof (induction n rule: showNat.induct)
  case (1 n)
  show ?case
  proof (cases "n < 10")
    case True
    then show ?thesis by (subst showNat.simps) (simp add: isDigit_char_of)
  next
    case False
    with 1 show ?thesis by (subst showNat.simps) (simp add: isDigit_char_of)
  qed
qed

lemma showNat_nonempty: "showNat n \<noteq> []"
  by (subst showNat.simps) simp

lemma decimal_snoc: "decimal (ds @ [c]) = decimal ds * 10 + digitVal c"
  by (simp add: decimal_def)

lemma decimal_showNat: "decimal (showNat n) = int n"
proof (induction n rule: showNat.induct)
  case (1 n)
  show ?case
  proof (cases "n < 10")
    case True
    then show ?thesis by (subst showNat.simps) (simp add: decimal_def digitVal_char_of)
  next
    case False
    with 1 have "decimal (showNat (n div 10)) = int (n div 10)" by simp
    moreover have "int (n div 10) * 10 + int (n mod 10) = int n"
      by presburger
    ultimately show ?thesis using False
      by (subst showNat.simps) (simp add: decimal_snoc digitVal_char_of)
  qed
qed

lemma isDigit_not_sign: "isDigit c \<Longrightarrow> c \<noteq> CHR ''-'' \<and> c \<noteq> CHR ''+'' \<and> c \<noteq> CHR '':'' \<and> c \<noteq> LF"
  by (auto simp: isDigit_def LF_def)

lemma Atoi_digits:
  assumes "ds \<noteq> []" and "list_all isDigit ds" and "decimal ds < 2 ^ 63" and "0 \<le> decimal ds"
  shows "Atoi ds = (decimal ds, None)"
proof -
  from assms(1) obtain c r where ds: "ds = c # r" by (cases ds) auto
  with assms(2) have "isDigit c" by simp
  then have "c \<noteq> CHR ''-''" "c \<noteq> CHR ''+''" using isDigit_not_sign by auto
  with ds assms show ?thesis by (simp add: Atoi_def)
qed

lemma Atoi_showInt: "isId n \<Longrightarrow> Atoi (showInt n) = (n, None)"
  using Atoi_digits [of "showNat (nat n)"]
  by (simp add: isId_def showInt_def showNat_nonempty showNat_digits decimal_showNat)


lemma colons_simps [simp]:
  "colons [] = 0"
  "colons (Lit c # ts) = (if c = CHR '':'' then Suc (colons ts) else colons ts)"
  "colons (One p # ts) = colons ts"
  "colons (Many p # ts) = colons ts"
  by (simp_all add: colons_def)

lemma match_needs_colons:
  "matchHere ts s = Some r \<Longrightarrow> colons ts \<le> count_list s (CHR '':'')"
  "matchMany p ts acc s = Some r' \<Longrightarrow> colons ts \<le> count_list s (CHR '':'')"
proof (induction ts s and p ts acc s arbitrary: r and r' rule: matchHere_matchMany.induct)
  case (1 s)
  then show ?case by simp
next
  case (2 c ts)
  then show ?case by simp
next
  case (3 c ts x xs)
  then show ?case by (auto split: if_splits)
next
  case (4 p ts)
  then show ?case by simp
next
  case (5 p ts x xs)
  then show ?case by (fastforce split: if_splits option.splits)
next
  case (6 p ts)
  then show ?case by simp
next
  case (7 p ts x xs)
  then show ?case by (fastforce split: if_splits)
next
  case (8 p ts acc)
  then show ?case by (auto split: option.splits)
next
  case (9 p ts acc x xs)
  then show ?case by (fastforce split: if_splits option.splits)
qed

lemma matchMany_run:
  assumes "list_all p ds"
      and "s = [] \<or> \<not> p (hd s)"
      and "matchHere ts s = Some (caps, rest)"
  shows "matchMany p ts acc (ds @ s) = Some ((acc @ ds) # caps, rest)"
  using assms
proof (induction ds arbitrary: acc)
  case Nil
  then show ?case by (cases s) auto
next
  case (Cons d ds)
  from Cons.IH [of "acc @ [d]"] Cons.prems show ?case by simp
qed

lemma matchHere_Many_run:
  assumes "ds \<noteq> []" and "list_all p ds"
      and "s = [] \<or> \<not> p (hd s)"
      and "matchHere ts s = Some (caps, rest)"
  shows "matchHere (Many p # ts) (ds @ s) = Some (ds # caps, rest)"
proof -
  from assms(1) obtain d ds' where ds: "ds = d # ds'" by (cases ds) auto
  with assms(2) have "p d" "list_all p ds'" by auto
  with matchMany_run [OF \<open>list_all p ds'\<close> assms(3,4), of "[d]"] ds show ?thesis by simp
qed

lemma matchMany_greedy:
  assumes "list_all p n"
      and "matchHere ts (CHR '':'' # s) = Some (caps, rest)"
      and "count_list s (CHR '':'') < colons ts"
  shows "matchMany p ts acc (n @ CHR '':'' # s) = Some ((acc @ n) # caps, rest)"
  using assms
proof (induction n arbitrary: acc)
  case Nil
  have "matchMany p ts (acc @ [CHR '':'']) s = None"
  proof (cases "matchMany p ts (acc @ [CHR '':'']) s")
    case None
    then show ?thesis .
  next
    case (Some r)
    from match_needs_colons(2) [OF this] Nil.prems(3) show ?thesis by simp
  qed
  with Nil.prems show ?case by simp
next
  case (Cons c n)
  from Cons.IH [of "acc @ [c]"] Cons.prems show ?case by simp
qed

lemma matchHere_Many_greedy:
  assumes "n \<noteq> []" and "list_all p n"
      and "matchHere ts (CHR '':'' # s) = Some (caps, rest)"
      and "count_list s (CHR '':'') < colons ts"
  shows "matchHere (Many p # ts) (n @ CHR '':'' # s) = Some (n # caps, rest)"
proof -
  from assms(1) obtain c n' where n: "n = c # n'" by (cases n) auto
  with assms(2) have "p c" "list_all p n'" by auto
  with matchMany_greedy [OF \<open>list_all p n'\<close> assms(3,4), of "[c]"] n show ?thesis by simp
qed


lemma digits_no_colon: "list_all isDigit ds \<Longrightarrow> count_list ds (CHR '':'') = 0"
  by (induction ds) (auto simp: isDigit_def)

lemma not_isDigit_colon: "\<not> isDigit (CHR '':'')"
  by (simp add: isDigit_def)

lemma matchHere_paneRe:
  assumes d1: "d1 \<noteq> []" "list_all isDigit d1"
      and n1: "n1 \<noteq> []" "list_all isAny n1"
      and d2: "d2 \<noteq> []" "list_all isDigit d2"
      and n2: "n2 \<noteq> []" "list_all isAny n2" "CHR '':'' \<notin> set n2"
      and d3: "d3 \<noteq> []" "list_all isDigit d3"
      and d4: "d4 \<noteq> []" "list_all isDigit d4"
      and a: "is01 a"
      and d5: "d5 \<noteq> []" "list_all isDigit d5"
  shows "matchHere paneRe
           (CHR ''$'' # d1 @ CHR '':'' # n1 @ CHR '':'' # CHR ''@'' # d2 @ CHR '':'' # n2 @
            CHR '':'' # d3 @ CHR '':'' # CHR ''%'' # d4 @ CHR '':'' # a # CHR '':'' # d5) =
         Some ([d1, n1, d2, n2, d3, d4, [a], d5], [])"
proof -
  let ?t8 = "[Many isDigit]"
  let ?t7 = "One is01 # Lit (CHR '':'') # ?t8"
  let ?t6 = "Many isDigit # Lit (CHR '':'') # ?t7"
  let ?t5 = "Many isDigit # Lit (CHR '':'') # Lit (CHR ''%'') # ?t6"
  let ?t4 = "Many isAny # Lit (CHR '':'') # ?t5"
  let ?t3 = "Many isDigit # Lit (CHR '':'') # ?t4"
  let ?t2 = "Many isAny # Lit (CHR '':'') # Lit (CHR ''@'') # ?t3"
  let ?s7 = "a # CHR '':'' # d5"
  let ?s6 = "d4 @ CHR '':'' # ?s7"
  let ?s5 = "d3 @ CHR '':'' # CHR ''%'' # ?s6"
  let ?s4 = "n2 @ CHR '':'' # ?s5"
  let ?s3 = "d2 @ CHR '':'' # ?s4"
  let ?s2 = "n1 @ CHR '':'' # CHR ''@'' # ?s3"
  have a_no_colon: "a \<noteq> CHR '':''" using a by (auto simp: is01_def)
  have h8: "matchHere ?t8 d5 = Some ([d5], [])"
    using matchHere_Many_run [OF d5, of "[]" "[]" "[]" "[]"] by simp
  have h7: "matchHere ?t7 ?s7 = Some ([[a], d5], [])"
    using h8 a by simp
  have h6: "matchHere ?t6 ?s6 = Some ([d4, [a], d5], [])"
    using matchHere_Many_run [OF d4, of "CHR '':'' # ?s7" "Lit (CHR '':'') # ?t7"] h7
    by (simp add: not_isDigit_colon)
  have h5: "matchHere ?t5 ?s5 = Some ([d3, d4, [a], d5], [])"
    using matchHere_Many_run [OF d3, of "CHR '':'' # CHR ''%'' # ?s6"
        "Lit (CHR '':'') # Lit (CHR ''%'') # ?t6"] h6
    by (simp add: not_isDigit_colon)
  have h5': "matchHere (Lit (CHR '':'') # ?t5) (CHR '':'' # ?s5) = Some ([d3, d4, [a], d5], [])"
    using h5 by simp
  have c5: "count_list ?s5 (CHR '':'') < colons (Lit (CHR '':'') # ?t5)"
    using a_no_colon by (simp add: digits_no_colon d3 d4 d5)
  have h4: "matchHere ?t4 ?s4 = Some ([n2, d3, d4, [a], d5], [])"
    using matchHere_Many_greedy [OF n2(1,2) h5' c5] by simp
  have h3: "matchHere ?t3 ?s3 = Some ([d2, n2, d3, d4, [a], d5], [])"
    using matchHere_Many_run [OF d2, of "CHR '':'' # ?s4" "Lit (CHR '':'') # ?t4"] h4
    by (simp add: not_isDigit_colon)
  have h3': "matchHere (Lit (CHR '':'') # Lit (CHR ''@'') # ?t3) (CHR '':'' # CHR ''@'' # ?s3) =
      Some ([d2, n2, d3, d4, [a], d5], [])"
    using h3 by simp
  have n2c: "count_list n2 (CHR '':'') = 0"
    using n2(3) by (simp add: count_list_0_iff)
  have c3: "count_list (CHR ''@'' # ?s3) (CHR '':'') <
      colons (Lit (CHR '':'') # Lit (CHR ''@'') # ?t3)"
    using a_no_colon by (simp add: digits_no_colon d2 d3 d4 d5 n2c)
  have h2: "matchHere ?t2 ?s2 = Some ([n1, d2, n2, d3, d4, [a], d5], [])"
    using matchHere_Many_greedy [OF n1(1,2) h3' c3] by simp
  have h1: "matchHere (Many isDigit # Lit (CHR '':'') # ?t2) (d1 @ CHR '':'' # ?s2) =
      Some ([d1, n1, d2, n2, d3, d4, [a], d5], [])"
    using matchHere_Many_run [OF d1, of "CHR '':'' # ?s2" "Lit (CHR '':'') # ?t2"] h2
    by (simp add: not_isDigit_colon)
  then show ?thesis by (simp add: paneRe_def)
qed


lemma showInt_id: "isId n \<Longrightarrow> showInt n \<noteq> [] \<and> list_all isDigit (showInt n)"
  by (simp add: isId_def showInt_def showNat_nonempty showNat_digits)

lemma no_LF_isAny: "LF \<notin> set n \<Longrightarrow> list_all isAny n"
  by (auto simp: list_all_iff isAny_def)

lemma digits_no_LF: "list_all isDigit ds \<Longrightarrow> LF \<notin> set ds"
  by (induction ds) (auto simp: isDigit_def LF_def)

lemma formatPane_shape:
  "formatPane p =
     CHR ''$'' # showInt (Pane.SessionId p) @ CHR '':'' # Pane.SessionName p @
     CHR '':'' # CHR ''@'' # showInt (WindowId p) @ CHR '':'' # WindowName p @
     CHR '':'' # showInt (WindowIndex p) @ CHR '':'' # CHR ''%'' # showInt (ID p) @
     CHR '':'' # (if Active p then CHR ''1'' else CHR ''0'') # CHR '':'' # showInt (Index p)"
  by (simp add: formatPane_def)

lemma FindStringSubmatch_formatPane:
  assumes "wellFormed p"
  shows "FindStringSubmatch paneRe (formatPane p) =
           [formatPane p, showInt (Pane.SessionId p), Pane.SessionName p, showInt (WindowId p),
            WindowName p, showInt (WindowIndex p), showInt (ID p),
            [if Active p then CHR ''1'' else CHR ''0''], showInt (Index p)]"
proof -
  from assms have ids: "isId (ID p)" "isId (Pane.SessionId p)" "isId (WindowId p)"
      "isId (WindowIndex p)" "isId (Index p)"
    and n1: "Pane.SessionName p \<noteq> []" "LF \<notin> set (Pane.SessionName p)"
    and n2: "WindowName p \<noteq> []" "LF \<notin> set (WindowName p)" "CHR '':'' \<notin> set (WindowName p)"
    by (simp_all add: wellFormed_def)
  have a: "is01 (if Active p then CHR ''1'' else CHR ''0'')" by (simp add: is01_def)
  note m = matchHere_paneRe [of "showInt (Pane.SessionId p)" "Pane.SessionName p"
      "showInt (WindowId p)" "WindowName p" "showInt (WindowIndex p)" "showInt (ID p)"
      "if Active p then CHR ''1'' else CHR ''0''" "showInt (Index p)"]
  have "matchHere paneRe (formatPane p) =
      Some ([showInt (Pane.SessionId p), Pane.SessionName p, showInt (WindowId p),
             WindowName p, showInt (WindowIndex p), showInt (ID p),
             [if Active p then CHR ''1'' else CHR ''0''], showInt (Index p)], [])"
    unfolding formatPane_shape
    using ids n1 n2 a by (intro m) (simp_all add: showInt_id no_LF_isAny)
  moreover obtain x xs where "formatPane p = x # xs" by (simp add: formatPane_shape)
  ultimately show ?thesis by simp
qed

lemma parseLines_formatPane:
  assumes "wellFormed p"
  shows "parseLines (formatPane p # outLines) panes = parseLines outLines (panes @ [p])"
proof -
  from assms have ids: "isId (ID p)" "isId (Pane.SessionId p)" "isId (WindowId p)"
      "isId (WindowIndex p)" "isId (Index p)"
    by (simp_all add: wellFormed_def)
  show ?thesis
    using ids
    by (simp add: FindStringSubmatch_formatPane [OF assms] paneParts_def Atoi_showInt)
      (cases p, auto)
qed

lemma parseLines_empty_line: "parseLines [[]] panes = (panes, None)"
  by (simp add: paneRe_def paneParts_def Let_def)

lemma parseLines_listing:
  "list_all wellFormed ps \<Longrightarrow>
   parseLines (map formatPane ps @ [[]]) panes = (panes @ ps, None)"
proof (induction ps arbitrary: panes)
  case Nil
  then show ?case by (simp add: parseLines_empty_line del: parseLines.simps)
next
  case (Cons p ps)
  then show ?case by (simp add: parseLines_formatPane del: parseLines.simps)
qed

lemma Split_line: "sep \<notin> set l \<Longrightarrow> Split (l @ sep # rest) sep = l # Split rest sep"
  by (induction l) auto

lemma showInt_no_LF: "isId n \<Longrightarrow> LF \<notin> set (showInt n)"
  using showInt_id digits_no_LF by blast

lemma formatPane_no_LF: "wellFormed p \<Longrightarrow> LF \<notin> set (formatPane p)"
  by (simp add: formatPane_shape wellFormed_def showInt_no_LF) (simp add: LF_def)

lemma Split_listing:
  "list_all wellFormed ps \<Longrightarrow>
   Split (concat (map (\<lambda>p. formatPane p @ [LF]) ps)) LF = map formatPane ps @ [[]]"
  by (induction ps) (simp_all add: Split_line formatPane_no_LF)

lemma groups_simps [simp]:
  "groups [] = []"
  "groups (Lit c # ts) = groups ts"
  "groups (One p # ts) = One p # groups ts"
  "groups (Many p # ts) = Many p # groups ts"
  by (simp_all add: groups_def)

lemma match_groups:
  "matchHere ts s = Some (caps, rest) \<Longrightarrow> list_all2 groupOK (groups ts) caps"
  "matchMany p ts acc s = Some (caps', rest') \<Longrightarrow> acc \<noteq> [] \<Longrightarrow> list_all p acc \<Longrightarrow>
     list_all2 groupOK (Many p # groups ts) caps'"
proof (induction ts s and p ts acc s arbitrary: caps rest and caps' rest'
       rule: matchHere_matchMany.induct)
  case (1 s)
  then show ?case by simp
next
  case (2 c ts)
  then show ?case by simp
next
  case (3 c ts x xs)
  then show ?case by (auto split: if_splits)
next
  case (4 p ts)
  then show ?case by simp
next
  case (5 p ts x xs)
  then show ?case by (auto simp: groupOK_def split: if_splits option.splits)
next
  case (6 p ts)
  then show ?case by simp
next
  case (7 p ts x xs)
  then show ?case by (auto split: if_splits)
next
  case (8 p ts acc)
  then show ?case by (auto simp: groupOK_def split: option.splits)
next
  case (9 p ts acc x xs)
  show ?case
  proof (cases "if p x then matchMany p ts (acc @ [x]) xs else None")
    case None
    with 9 show ?thesis by (auto simp: groupOK_def split: option.splits)
  next
    case (Some r)
    then have px: "p x" and m: "matchMany p ts (acc @ [x]) xs = Some r" by (auto split: if_splits)
    from "9.prems"(1) Some have r: "r = (caps', rest')" by simp
    from "9.IH"(1) [OF px m [unfolded r]] "9.prems"(3) px show ?thesis by simp
  qed
qed

lemma FindStringSubmatch_groups:
  "FindStringSubmatch re s \<noteq> [] \<Longrightarrow> list_all2 groupOK (groups re) (tl (FindStringSubmatch re s))"
proof (induction s)
  case Nil
  then show ?case by (auto split: option.splits dest: match_groups(1))
next
  case (Cons x xs)
  then show ?case by (auto split: option.splits dest: match_groups(1))
qed

lemma paneRe_numeric_groups:
  assumes "length (FindStringSubmatch paneRe line) > paneParts" and "i \<in> {1, 3, 5, 6, 8}"
  shows "FindStringSubmatch paneRe line ! i \<noteq> [] \<and>
         list_all isDigit (FindStringSubmatch paneRe line ! i)"
proof -
  let ?r = "FindStringSubmatch paneRe line"
  from assms(1) have ne: "?r \<noteq> []" by auto
  then obtain whole caps where r: "?r = whole # caps" by (cases ?r) auto
  from FindStringSubmatch_groups [OF ne] r
  have "list_all2 groupOK [Many isDigit, Many isAny, Many isDigit, Many isAny, Many isDigit,
                           Many isDigit, One is01, Many isDigit] caps"
    by (simp add: paneRe_def)
  then obtain g1 g2 g3 g4 g5 g6 g7 g8 where
    caps: "caps = [g1, g2, g3, g4, g5, g6, g7, g8]" and
    "groupOK (Many isDigit) g1" "groupOK (Many isDigit) g3" "groupOK (Many isDigit) g5"
    "groupOK (Many isDigit) g6" "groupOK (Many isDigit) g8"
    by (auto simp: list_all2_Cons1)
  with assms(2) r show ?thesis by (auto simp: groupOK_def)
qed

lemma decimal_nonneg: "list_all isDigit ds \<Longrightarrow> 0 \<le> decimal ds"
proof (induction ds rule: rev_induct)
  case Nil
  then show ?case by (simp add: decimal_def)
next
  case (snoc d ds)
  then have "0 \<le> decimal ds" and "isDigit d" by simp_all
  moreover from \<open>isDigit d\<close> have "0 \<le> digitVal d" by (auto simp: isDigit_def digitVal_def)
  ultimately show ?case by (simp add: decimal_snoc)
qed

lemma Atoi_digits_error:
  assumes "ds \<noteq> []" and "list_all isDigit ds" and "snd (Atoi ds) \<noteq> None"
  shows "snd (Atoi ds) = Some (ErrRange ds) \<and> 2 ^ 63 \<le> decimal ds"
proof (cases "decimal ds < 2 ^ 63")
  case True
  from Atoi_digits [OF assms(1,2) True decimal_nonneg [OF assms(2)]] assms(3) show ?thesis by simp
next
  case False
  from assms(1) obtain c r where ds: "ds = c # r" by (cases ds) auto
  with assms(2) have "isDigit c" by simp
  then have "c \<noteq> CHR ''-''" "c \<noteq> CHR ''+''" using isDigit_not_sign by auto
  with ds assms(1,2) False decimal_nonneg [OF assms(2)] show ?thesis
    by (simp add: Atoi_def)
qed

section \<open>The parser\<close>

lemma parseLines_Atoi_error:
  assumes "line \<in> set outLines"
      and "length (FindStringSubmatch paneRe line) > paneParts"
      and "i \<in> {1, 3, 5, 6, 8}"
      and "snd (Atoi (FindStringSubmatch paneRe line ! i)) \<noteq> None"
  shows "\<exists>e. parseLines outLines panes = ([], Some e)"
  using assms
proof (induction outLines arbitrary: panes)
  case Nil
  then show ?case by simp
next
  case (Cons l ls)
  show ?case
  proof (cases "l = line")
    case True
    with Cons.prems show ?thesis
      by (auto simp: Let_def split: prod.splits option.splits)
  next
    case False
    with Cons.prems have "line \<in> set ls" by simp
    from Cons.IH [OF this Cons.prems(2,3,4)]
    show ?thesis
      by (auto simp: Let_def split: prod.splits option.splits)
  qed
qed

text \<open>
  C3 (amended).  For every output that holds a line which the pattern matches and one
  of whose five numeric groups \<open>Atoi\<close> rejects, \<open>ListPanes\<close> returns \<open>nil\<close> and an
  error: no pane of any line is returned.  The group of a matched line is a string of
  digits, so that the rejection is a range error: the number does not fit the \<open>int\<close>.
\<close>

theorem ListPanes_Atoi_error:
  assumes "RunCmd_out ev log ([''list-panes'', ''-F'', format] @ args) = (out, err_out, None)"
      and "line \<in> set (Split out LF)"
      and "length (FindStringSubmatch paneRe line) > paneParts"
      and "i \<in> {1, 3, 5, 6, 8}"
      and "snd (Atoi (FindStringSubmatch paneRe line ! i)) \<noteq> None"
  shows "(\<exists>e. fst (ListPanes ev args log) = ([], Some e)) \<and>
         snd (Atoi (FindStringSubmatch paneRe line ! i)) =
           Some (ErrRange (FindStringSubmatch paneRe line ! i)) \<and>
         2 ^ 63 \<le> decimal (FindStringSubmatch paneRe line ! i)"
proof -
  from parseLines_Atoi_error [OF assms(2,3,4,5)]
  obtain e where "parseLines (Split out LF) [] = ([], Some e)" by blast
  with assms(1) have "\<exists>e. fst (ListPanes ev args log) = ([], Some e)"
    by (simp add: ListPanes_def RunCmd_def)
  moreover from paneRe_numeric_groups [OF assms(3,4)] assms(5)
  have "snd (Atoi (FindStringSubmatch paneRe line ! i)) =
          Some (ErrRange (FindStringSubmatch paneRe line ! i)) \<and>
        2 ^ 63 \<le> decimal (FindStringSubmatch paneRe line ! i)"
    by (intro Atoi_digits_error) simp_all
  ultimately show ?thesis by blast
qed

theorem ListPanes_Atoi_error_witness:
  "RunCmd_out (printEnv (paneLine 0 @ [LF] @ overflowLine @ [LF])) []
     ([''list-panes'', ''-F'', format] @ []) =
     (paneLine 0 @ [LF] @ overflowLine @ [LF], [], None) \<and>
   overflowLine \<in> set (Split (paneLine 0 @ [LF] @ overflowLine @ [LF]) LF) \<and>
   length (FindStringSubmatch paneRe overflowLine) > paneParts \<and>
   (6::nat) \<in> {1, 3, 5, 6, 8} \<and>
   snd (Atoi (FindStringSubmatch paneRe overflowLine ! 6)) =
     Some (ErrRange ''99999999999999999999'') \<and>
   fst (ListPanes (printEnv (paneLine 0 @ [LF] @ overflowLine @ [LF])) [] []) =
     ([], Some (ErrRange ''99999999999999999999'')) \<and>
   2 ^ 63 \<le> decimal (FindStringSubmatch paneRe overflowLine ! 6)"
proof -
  have a: "RunCmd_out (printEnv (paneLine 0 @ [LF] @ overflowLine @ [LF])) []
     ([''list-panes'', ''-F'', format] @ []) =
     (paneLine 0 @ [LF] @ overflowLine @ [LF], [], None)"
    by (simp add: printEnv_def)
  have b: "overflowLine \<in> set (Split (paneLine 0 @ [LF] @ overflowLine @ [LF]) LF)"
    by code_simp
  have c: "length (FindStringSubmatch paneRe overflowLine) > paneParts"
    by code_simp
  have d: "(6::nat) \<in> {1, 3, 5, 6, 8}"
    by simp
  have e: "snd (Atoi (FindStringSubmatch paneRe overflowLine ! 6)) =
     Some (ErrRange ''99999999999999999999'')"
    by code_simp
  then have e': "snd (Atoi (FindStringSubmatch paneRe overflowLine ! 6)) \<noteq> None"
    by simp
  have f: "fst (ListPanes (printEnv (paneLine 0 @ [LF] @ overflowLine @ [LF])) [] []) =
     ([], Some (ErrRange ''99999999999999999999''))"
    by code_simp
  from ListPanes_Atoi_error [OF a b c d e']
  have g: "2 ^ 63 \<le> decimal (FindStringSubmatch paneRe overflowLine ! 6)"
    by blast
  show ?thesis
    by (intro conjI; (rule a b c d e f g))
qed

text \<open>
  C3 as stated fails: a line whose window identifier is not a number does not match the
  pattern, so it is skipped like any other noise; the call succeeds and returns the
  pane of the other line.
\<close>

theorem ListPanes_malformed_counterexample:
  "snd (Atoi ''x'') = Some (ErrSyntax ''x'') \<and>
   malformedLine \<in> set (Split (malformedLine @ [LF] @ paneLine 1 @ [LF]) LF) \<and>
   fst (ListPanes (printEnv (malformedLine @ [LF] @ paneLine 1 @ [LF])) [] []) =
     ([listedPane 1], None)"
  by code_simp

text \<open>
  C7.  For every listing in the documented format, one line per pane, each line well
  formed and ended by a line feed (a four-pane listing for one), \<open>ListPanes\<close>
  returns without error exactly the panes of the lines, in the order of the lines: the
  numbers behind \<open>$\<close>, \<open>@\<close> and \<open>%\<close> as integers, and the active flag \<open>True\<close>
  for \<open>1\<close> and \<open>False\<close> for \<open>0\<close>.
\<close>

theorem ListPanes_well_formed:
  assumes "RunCmd_out ev log ([''list-panes'', ''-F'', format] @ args) =
             (concat (map (\<lambda>p. formatPane p @ [LF]) ps), err_out, None)"
      and "list_all wellFormed ps"
  shows "fst (ListPanes ev args log) = (ps, None)"
  using assms by (simp add: ListPanes_def RunCmd_def Split_listing parseLines_listing)

theorem ListPanes_well_formed_witness:
  "RunCmd_out (printEnv (listing 4)) [] ([''list-panes'', ''-F'', format] @ []) =
     (concat (map (\<lambda>p. formatPane p @ [LF]) (map listedPane [0 ..< 4])), [], None) \<and>
   list_all wellFormed (map listedPane [0 ..< 4]) \<and>
   fst (ListPanes (printEnv (listing 4)) [] []) = (map listedPane [0 ..< 4], None)"
proof -
  have l: "listing 4 = concat (map (\<lambda>p. formatPane p @ [LF]) (map listedPane [0 ..< 4]))"
    by code_simp
  have a: "RunCmd_out (printEnv (listing 4)) [] ([''list-panes'', ''-F'', format] @ []) =
     (concat (map (\<lambda>p. formatPane p @ [LF]) (map listedPane [0 ..< 4])), [], None)"
    unfolding l [symmetric] by (simp add: printEnv_def)
  have b: "list_all wellFormed (map listedPane [0 ..< 4])"
    by code_simp
  from ListPanes_well_formed [OF a b] a b show ?thesis by blast
qed
section \<open>The loops of Apply\<close>

lemma SplitPane_window:
  assumes "SplitPane ev w log = (Normal (pane, err, w1), log1)"
  shows "w1 = w \<or> w1 = w\<lparr>Panes := Panes w @ [pane]\<rparr>"
  using assms
  by (auto simp: SplitPane_def split: prod.splits if_splits)

lemma paneLoop_from:
  assumes "paneLoop ev [k ..< n] w log = (Normal (None, w2), log2)"
      and "length (Panes w) = k" and "1 \<le> k"
  shows "Panes w2 = Panes w @ splitResults ev w log (n - k) \<and>
         length (Panes w2) = k + (n - k)"
  using assms
proof (induction "n - k" arbitrary: k w log)
  case 0
  then show ?case by simp
next
  case (Suc m)
  then have kn: "k < n" and m: "m = n - Suc k" by auto
  then have upt: "[k ..< n] = k # [Suc k ..< n]" by (simp add: upt_conv_Cons)
  have nk: "n - k = Suc m" using Suc.hyps(2) by simp
  obtain r log1 where sp: "SplitPane ev w log = (r, log1)" by (cases "SplitPane ev w log")
  from Suc.prems(1) Suc.prems(3) sp upt obtain pane w1 where
    r: "r = Normal (pane, None, w1)" and len: "k < length (Panes w1)"
    and rest: "paneLoop ev [Suc k ..< n] (w1\<lparr>Panes := (Panes w1)[k := pane]\<rparr>) log1 =
                 (Normal (None, w2), log2)"
    by (auto split: exec.splits option.splits if_splits)
  from SplitPane_window [OF sp [unfolded r]] len Suc.prems(2)
  have w1: "w1 = w\<lparr>Panes := Panes w @ [pane]\<rparr>" by auto
  have "(Panes w @ [pane])[length (Panes w) := pane] = Panes w @ [pane]"
    by simp
  then have same: "w1\<lparr>Panes := (Panes w1)[k := pane]\<rparr> = w1"
    unfolding w1 Suc.prems(2) by simp
  have len1: "length (Panes w1) = Suc k" using w1 Suc.prems(2) by simp
  have one: "1 \<le> Suc k" by simp
  note ih = Suc.hyps(1) [OF m rest [unfolded same] len1 one]
  have A: "Panes w2 = Panes w1 @ splitResults ev w1 log1 (n - Suc k)"
    using ih by (rule conjunct1)
  have B: "length (Panes w2) = Suc k + (n - Suc k)"
    using ih by (rule conjunct2)
  from A w1 sp r nk m have "Panes w2 = Panes w @ splitResults ev w log (n - k)" by simp
  moreover from B kn have "length (Panes w2) = k + (n - k)" by simp
  ultimately show ?case by simp
qed

lemma setupPanes_one_listed:
  assumes "setupPanes ev w1 l1 = (Normal (None, w2), l3)"
      and "Window_ListPanes ev w1 l1 = (([p0], err), l2)"
      and "1 \<le> length (Panes w1)"
  shows "Panes w2 = p0 # splitResults ev (w1\<lparr>Panes := [p0]\<rparr>) l2 (length (Panes w1) - 1) \<and>
         length (Panes w2) = length (Panes w1)"
proof -
  let ?n = "length (Panes w1)"
  have upt: "[0 ..< ?n] = 0 # [Suc 0 ..< ?n]"
    by (rule upt_conv_Cons) (use assms(3) in auto)
  from assms(1,2) have "paneLoop ev [Suc 0 ..< ?n] (w1\<lparr>Panes := [p0]\<rparr>) l2 = (Normal (None, w2), l3)"
    by (simp add: setupPanes_def upt del: upt_Suc)
  note pl = paneLoop_from [OF this, simplified]
  have "Panes w2 = p0 # splitResults ev (w1\<lparr>Panes := [p0]\<rparr>) l2 (?n - 1)"
    using pl [THEN conjunct1] by simp
  moreover have "length (Panes w2) = ?n"
    using pl [THEN conjunct2] assms(3) by simp
  ultimately show ?thesis by simp
qed

lemma windowLoop_extends:
  "windowLoop ev s iw ws win log = (Normal (None, win'), log') \<Longrightarrow>
   \<exists>ext. win' = win @ ext \<and> length ext = length ws"
proof (induction ws arbitrary: win log)
  case Nil
  then show ?case by simp
next
  case (Cons w ws)
  from Cons.prems obtain w1 log1 where
    "windowLoop ev s iw ws (win @ [w1]) log1 = (Normal (None, win'), log')"
    by (auto split: prod.splits exec.splits option.splits)
  from Cons.IH [OF this] show ?case by auto
qed

lemma windowLoop_nth:
  "windowLoop ev s iw ws win log = (Normal (None, win'), log') \<Longrightarrow> wi < length ws \<Longrightarrow>
   \<exists>winA l la. windowLoop ev s iw (take wi ws) win log = (Normal (None, winA), l) \<and>
     applyWindow ev s iw (ws ! wi) l = (Normal (None, win' ! (length win + wi)), la)"
proof (induction ws arbitrary: win log wi)
  case Nil
  then show ?case by simp
next
  case (Cons w ws)
  from Cons.prems(1) obtain w1 log1 where
    step: "applyWindow ev s iw w log = (Normal (None, w1), log1)" and
    rest: "windowLoop ev s iw ws (win @ [w1]) log1 = (Normal (None, win'), log')"
    by (auto split: prod.splits exec.splits option.splits)
  show ?case
  proof (cases wi)
    case 0
    from windowLoop_extends [OF rest] have "win' ! length win = w1"
      by (auto simp: nth_append)
    with 0 step show ?thesis by simp
  next
    case (Suc k)
    with Cons.prems(2) have "k < length ws" by simp
    from Cons.IH [OF rest this] Suc step show ?thesis by simp
  qed
qed

lemma sessionLoop_length:
  "sessionLoop ev srv act si ss log = (Normal (r, ss'), log') \<Longrightarrow> length ss' = length ss"
  by (induction ss arbitrary: si log ss' r)
     (auto split: prod.splits exec.splits option.splits)

lemma sessionLoop_nth:
  "sessionLoop ev srv act si0 ss log = (Normal (None, ss'), log') \<Longrightarrow> i < length ss \<Longrightarrow>
   \<exists>ssA l la. sessionLoop ev srv act si0 (take i ss) log = (Normal (None, ssA), l) \<and>
     applySession ev srv act (si0 + i) (ss ! i) l = (Normal (None, ss' ! i), la)"
proof (induction ss arbitrary: si0 log i ss')
  case Nil
  then show ?case by simp
next
  case (Cons s ss)
  from Cons.prems(1) obtain s1 log1 ss1 where
    step: "applySession ev srv act si0 s log = (Normal (None, s1), log1)" and
    rest: "sessionLoop ev srv act (si0 + 1) ss log1 = (Normal (None, ss1), log')" and
    ss': "ss' = s1 # ss1"
    by (auto split: prod.splits exec.splits option.splits)
  show ?case
  proof (cases i)
    case 0
    with step ss' show ?thesis by simp
  next
    case (Suc k)
    with Cons.prems(2) have "k < length ss" by simp
    from Cons.IH [OF rest this] obtain ssA l la where
      A: "sessionLoop ev srv act (si0 + 1) (take k ss) log1 = (Normal (None, ssA), l)" and
      B: "applySession ev srv act (si0 + 1 + k) (ss ! k) l = (Normal (None, ss1 ! k), la)"
      by blast
    from A step Suc have "sessionLoop ev srv act si0 (take i (s # ss)) log =
        (Normal (None, s1 # ssA), l)" by simp
    moreover from B Suc ss' have "applySession ev srv act (si0 + i) ((s # ss) ! i) l =
        (Normal (None, ss' ! i), la)" by simp
    ultimately show ?thesis by blast
  qed
qed

lemma enterSession_Windows:
  "enterSession ev srv act si s iw log = ((r, s1), log1) \<Longrightarrow> Windows s1 = Windows s"
  by (auto simp: enterSession_def Let_def split: prod.splits option.splits if_splits)

lemma applySession_success:
  assumes "applySession ev srv act si s log = (Normal (None, s'), log')"
  shows "\<exists>s1 log1 win. Windows s \<noteq> [] \<and>
           enterSession ev srv act si s (Windows s ! 0) log = ((None, s1), log1) \<and>
           windowLoop ev s1 (Windows s ! 0) (Windows s1) [] log1 = (Normal (None, win), log') \<and>
           s' = s1\<lparr>Windows := win\<rparr>"
  using assms
  by (auto simp: applySession_def split: list.splits prod.splits exec.splits option.splits)

lemma Apply_success:
  assumes "Apply ev c log = (Normal (None, c'), log')"
  shows "\<exists>srv ss. Server c = Some srv \<and> Sessions c \<noteq> [] \<and> checkInput c = None \<and>
           sessionLoop ev srv (ActiveSession c) 0 (Sessions c) log = (Normal (None, ss), log') \<and>
           c' = c\<lparr>Sessions := ss\<rparr>"
  using assms
  by (auto simp: Apply_def split: option.splits if_splits prod.splits exec.splits)

lemma Apply_reaches_window:
  assumes "Apply ev c log = (Normal (None, c'), log')"
      and "si < length (Sessions c)"
      and "wi < length (Windows (Sessions c ! si))"
  shows "\<exists>s1 l la. windowEntry ev c log si wi = Some (s1, l) \<and>
           applyWindow ev s1 (Windows (Sessions c ! si) ! 0) (Windows (Sessions c ! si) ! wi) l =
             (Normal (None, Windows (Sessions c' ! si) ! wi), la)"
proof -
  from Apply_success [OF assms(1)] obtain srv ss where
    srv: "Server c = Some srv" and ne: "Sessions c \<noteq> []" and chk: "checkInput c = None" and
    loop: "sessionLoop ev srv (ActiveSession c) 0 (Sessions c) log = (Normal (None, ss), log')" and
    c': "c' = c\<lparr>Sessions := ss\<rparr>"
    by blast
  from sessionLoop_nth [OF loop assms(2)] obtain ssA l0 la0 where
    pre: "sessionLoop ev srv (ActiveSession c) 0 (take si (Sessions c)) log = (Normal (None, ssA), l0)" and
    body: "applySession ev srv (ActiveSession c) si (Sessions c ! si) l0 = (Normal (None, ss ! si), la0)"
    by auto
  let ?s = "Sessions c ! si"
  from applySession_success [OF body] obtain s1 l1 win where
    enter: "enterSession ev srv (ActiveSession c) si ?s (Windows ?s ! 0) l0 = ((None, s1), l1)" and
    wl: "windowLoop ev s1 (Windows ?s ! 0) (Windows s1) [] l1 = (Normal (None, win), la0)" and
    s': "ss ! si = s1\<lparr>Windows := win\<rparr>"
    by blast
  have ws: "Windows s1 = Windows ?s" using enterSession_Windows [OF enter] .
  from assms(3) ws have "wi < length (Windows s1)" by simp
  from windowLoop_nth [OF wl this] obtain winA l la where
    wpre: "windowLoop ev s1 (Windows ?s ! 0) (take wi (Windows s1)) [] l1 = (Normal (None, winA), l)" and
    wbody: "applyWindow ev s1 (Windows ?s ! 0) (Windows s1 ! wi) l = (Normal (None, win ! wi), la)"
    by auto
  have "windowEntry ev c log si wi = Some (s1, l)"
    using srv ne chk assms(2,3) pre enter wpre by (simp add: windowEntry_def)
  moreover have "Windows (Sessions c' ! si) ! wi = win ! wi"
    using c' s' by simp
  ultimately show ?thesis using wbody ws by auto
qed


lemma realizeWindow_Panes:
  "realizeWindow ev s iw w l = ((r, w1), l1) \<Longrightarrow> Panes w1 = Panes w"
  by (auto simp: realizeWindow_def Let_def split: if_splits prod.splits option.splits)

lemma applyWindow_success:
  assumes "applyWindow ev s iw w l = (Normal (None, w'), la)"
  shows "\<exists>w1 l1 l3. realizeWindow ev s iw w l = ((None, w1), l1) \<and>
           setupPanes ev w1 l1 = (Normal (None, w'), l3)"
  using assms
  by (auto simp: applyWindow_def split: prod.splits exec.splits option.splits)

lemma Apply_reaches_pane_setup:
  assumes "Apply ev c log = (Normal (None, c'), log')"
      and "si < length (Sessions c)"
      and "wi < length (Windows (Sessions c ! si))"
  shows "\<exists>w1 l1. paneSetupEntry ev c log si wi = Some (w1, l1)"
proof -
  from Apply_reaches_window [OF assms] obtain s1 l la where
    "windowEntry ev c log si wi = Some (s1, l)" and
    "applyWindow ev s1 (Windows (Sessions c ! si) ! 0) (Windows (Sessions c ! si) ! wi) l =
       (Normal (None, Windows (Sessions c' ! si) ! wi), la)"
    by blast
  with applyWindow_success [OF this(2)] show ?thesis
    by (auto simp: paneSetupEntry_def)
qed

section \<open>Apply: the panes of a realized window\<close>

text \<open>
  C1 (amended).  For every window that declares N panes (N at least 1) and for which
  the listing that \<open>Apply\<close> asks for before splitting (line 110) returns exactly one
  pane, after a successful \<open>Apply\<close> the realized window has exactly N panes: the first
  is the pane of that listing, and the others are, in order, the panes that the N - 1
  calls of \<open>SplitPane\<close> returned.
\<close>

theorem Apply_realized_panes:
  assumes "Apply ev c log = (Normal (None, c'), log')"
      and "paneSetupEntry ev c log si wi = Some (w1, l1)"
      and "Window_ListPanes ev w1 l1 = (([p0], err), l2)"
      and "1 \<le> length (Panes (Windows (Sessions c ! si) ! wi))"
  shows "length (Panes (Windows (Sessions c' ! si) ! wi)) =
           length (Panes (Windows (Sessions c ! si) ! wi)) \<and>
         Panes (Windows (Sessions c' ! si) ! wi) =
           p0 # splitResults ev (w1\<lparr>Panes := [p0]\<rparr>) l2
                  (length (Panes (Windows (Sessions c ! si) ! wi)) - 1)"
proof -
  let ?iw = "Windows (Sessions c ! si) ! 0"
  let ?w = "Windows (Sessions c ! si) ! wi"
  let ?w' = "Windows (Sessions c' ! si) ! wi"
  from assms(2) obtain s1 l where
    entry: "windowEntry ev c log si wi = Some (s1, l)" and
    real: "realizeWindow ev s1 ?iw ?w l = ((None, w1), l1)"
    by (auto simp: paneSetupEntry_def split: option.splits prod.splits)
  from entry have si: "si < length (Sessions c)" and wi: "wi < length (Windows (Sessions c ! si))"
    by (auto simp: windowEntry_def split: option.splits if_splits)
  from Apply_reaches_window [OF assms(1) si wi] entry obtain la where
    "applyWindow ev s1 ?iw ?w l = (Normal (None, ?w'), la)" by auto
  from applyWindow_success [OF this] real obtain l3 where
    panes: "setupPanes ev w1 l1 = (Normal (None, ?w'), l3)" by auto
  have n: "Panes w1 = Panes ?w" using realizeWindow_Panes [OF real] .
  from assms(4) n have "1 \<le> length (Panes w1)" by simp
  from setupPanes_one_listed [OF panes assms(3) this] show ?thesis
    unfolding n by blast
qed

theorem Apply_realized_panes_witness:
  "Apply tmuxEnv cfgDev [] =
     (Normal (None, applied cfgDev [liveWindow ''edit'' 0 (map listedPane [0 ..< 3]),
                                    liveWindow ''logs'' 7 [listedPane 0]]),
      snd (Apply tmuxEnv cfgDev [])) \<and>
   paneSetupEntry tmuxEnv cfgDev [] 0 0 =
     Some (liveWindow ''edit'' 0 (replicate 3 zeroPane),
           snd (the (paneSetupEntry tmuxEnv cfgDev [] 0 0))) \<and>
   Window_ListPanes tmuxEnv (liveWindow ''edit'' 0 (replicate 3 zeroPane))
       (snd (the (paneSetupEntry tmuxEnv cfgDev [] 0 0))) =
     (([listedPane 0], None),
      snd (the (paneSetupEntry tmuxEnv cfgDev [] 0 0)) @
        [RunCmdCall [''list-panes'', ''-F'', format, ''-tdev:edit'']]) \<and>
   length (Panes (Windows (Sessions cfgDev ! 0) ! 0)) = 3 \<and>
   Panes (Windows (Sessions (applied cfgDev [liveWindow ''edit'' 0 (map listedPane [0 ..< 3]),
                                             liveWindow ''logs'' 7 [listedPane 0]]) ! 0) ! 0) =
     listedPane 0 #
     splitResults tmuxEnv ((liveWindow ''edit'' 0 (replicate 3 zeroPane))\<lparr>Panes := [listedPane 0]\<rparr>)
       (snd (the (paneSetupEntry tmuxEnv cfgDev [] 0 0)) @
          [RunCmdCall [''list-panes'', ''-F'', format, ''-tdev:edit'']])
       (length (Panes (Windows (Sessions cfgDev ! 0) ! 0)) - 1) \<and>
   splitResults tmuxEnv ((liveWindow ''edit'' 0 (replicate 3 zeroPane))\<lparr>Panes := [listedPane 0]\<rparr>)
       (snd (the (paneSetupEntry tmuxEnv cfgDev [] 0 0)) @
          [RunCmdCall [''list-panes'', ''-F'', format, ''-tdev:edit'']]) 2 =
     [listedPane 1, listedPane 2]"
proof -
  have a: "Apply tmuxEnv cfgDev [] =
     (Normal (None, applied cfgDev [liveWindow ''edit'' 0 (map listedPane [0 ..< 3]),
                                    liveWindow ''logs'' 7 [listedPane 0]]),
      snd (Apply tmuxEnv cfgDev []))"
    by code_simp
  have b: "paneSetupEntry tmuxEnv cfgDev [] 0 0 =
     Some (liveWindow ''edit'' 0 (replicate 3 zeroPane),
           snd (the (paneSetupEntry tmuxEnv cfgDev [] 0 0)))"
    by code_simp
  have c: "Window_ListPanes tmuxEnv (liveWindow ''edit'' 0 (replicate 3 zeroPane))
       (snd (the (paneSetupEntry tmuxEnv cfgDev [] 0 0))) =
     (([listedPane 0], None),
      snd (the (paneSetupEntry tmuxEnv cfgDev [] 0 0)) @
        [RunCmdCall [''list-panes'', ''-F'', format, ''-tdev:edit'']])"
    by code_simp
  have d: "length (Panes (Windows (Sessions cfgDev ! 0) ! 0)) = 3"
    by code_simp
  then have d': "1 \<le> length (Panes (Windows (Sessions cfgDev ! 0) ! 0))"
    by simp
  have e: "splitResults tmuxEnv ((liveWindow ''edit'' 0 (replicate 3 zeroPane))\<lparr>Panes := [listedPane 0]\<rparr>)
       (snd (the (paneSetupEntry tmuxEnv cfgDev [] 0 0)) @
          [RunCmdCall [''list-panes'', ''-F'', format, ''-tdev:edit'']]) 2 =
     [listedPane 1, listedPane 2]"
    by code_simp
  from Apply_realized_panes [OF a b c d'] a b c d e show ?thesis
    by blast
qed

text \<open>
  C1 as stated fails when that listing does not return exactly one pane.  When it
  prints nothing, a window that declares one pane is realized with no pane; when it
  lists two panes, the window is realized with two.  \<open>Apply\<close> succeeds both times.
\<close>

theorem Apply_realized_panes_counterexample:
  "length (Panes (Windows (Sessions cfgOnePane ! 0) ! 0)) = 1 \<and>
   fst (Apply silentEnv cfgOnePane []) =
     Normal (None, applied cfgOnePane [liveWindow ''edit'' 0 []]) \<and>
   fst (Apply existsEnv cfgOnePane []) =
     Normal (None, applied cfgOnePane [liveWindow ''edit'' 0 [listedPane 0, listedPane 1]])"
  by code_simp

section \<open>Apply: the creation of windows\<close>










lemma realizeWindow_initial:
  assumes "Window.Name w = Window.Name iw"
  shows "realizeWindow ev s iw w l =
           ((None, w\<lparr>Window.StartDirectory := resolvedDirectory s w, Window.Name := Window.Name iw,
                     Window.Id := 0, Window.SessionName := Session.Name s,
                     Window.SessionId := Session.Id s\<rparr>), l)"
  using assms by (simp add: realizeWindow_def resolvedDirectory_def Let_def)

lemma realizeWindow_other:
  assumes "Window.Name w \<noteq> Window.Name iw"
  shows "realizeWindow ev s iw w l =
           (case NewWindow_out ev l s (Window.Name w) (NewWindow_args s w) of
              (window, Some err) \<Rightarrow>
                ((Some err, w\<lparr>Window.StartDirectory := resolvedDirectory s w\<rparr>),
                 l @ [NewWindowCall s (Window.Name w) (NewWindow_args s w)])
            | (window, None) \<Rightarrow>
                ((None, w\<lparr>Window.StartDirectory := resolvedDirectory s w,
                           Window.Name := Window.Name window, Window.Id := Window.Id window,
                           Window.SessionName := Session.Name s,
                           Window.SessionId := Session.Id s\<rparr>),
                 l @ [NewWindowCall s (Window.Name w) (NewWindow_args s w)]))"
  using assms
  by (auto simp: realizeWindow_def resolvedDirectory_def NewWindow_args_def NewWindow_def Let_def
           split: prod.splits option.splits)





section \<open>Apply: errors\<close>

lemma returned_simps [simp]:
  "returned Panic = None"
  "returned (Normal (err, x)) = Some err"
  by (simp_all add: returned_def)

lemma propagated_Nil [simp]: "propagated ev log [] ro"
  by (simp add: propagated_def)

lemma propagated_single:
  "fatal ev log c = None \<or> ro = Some (fatal ev log c) \<Longrightarrow> propagated ev log [c] ro"
  by (auto simp: propagated_def)

lemma propagated_weaken:
  "propagated ev log ext (Some None) \<Longrightarrow> propagated ev log ext ro"
  by (auto simp: propagated_def)

lemma propagated_seq:
  assumes "propagated ev log ext1 (Some None)"
      and "propagated ev (log @ ext1) ext2 ro"
  shows "propagated ev log (ext1 @ ext2) ro"
  unfolding propagated_def
proof (intro allI impI)
  fix k e
  assume h: "k < length (ext1 @ ext2) \<and>
             fatal ev (log @ take k (ext1 @ ext2)) ((ext1 @ ext2) ! k) = Some e"
  show "Suc k = length (ext1 @ ext2) \<and> ro = Some (Some e)"
  proof (cases "k < length ext1")
    case True
    with h have "fatal ev (log @ take k ext1) (ext1 ! k) = Some e"
      by (simp add: nth_append)
    with assms(1) True show ?thesis by (auto simp: propagated_def)
  next
    case False
    then have k: "k = length ext1 + (k - length ext1)" by simp
    from h False have "k - length ext1 < length ext2" by auto
    moreover from h False
    have "fatal ev ((log @ ext1) @ take (k - length ext1) ext2) (ext2 ! (k - length ext1)) = Some e"
      by (simp add: nth_append)
    ultimately have "Suc (k - length ext1) = length ext2 \<and> ro = Some (Some e)"
      using assms(2) by (auto simp: propagated_def)
    with False show ?thesis by auto
  qed
qed

lemma fatal_list_panes [simp]:
  "fatal ev log (RunCmdCall (''list-panes'' # args)) = None"
  by (simp split: prod.splits)

lemma Window_ListPanes_propagated:
  "Window_ListPanes ev w log = (r, log') \<Longrightarrow>
   \<exists>ext. log' = log @ ext \<and> propagated ev log ext ro"
  by (auto simp: Window_ListPanes_def ListPanes_def RunCmd_def split: prod.splits option.splits
           intro!: propagated_single)

lemma fatal_split:
  "fatal ev log (RunCmdCall (SplitPane_args w)) =
     (case RunCmd_out ev log (SplitPane_args w) of
        (out, err_out, err_exec) \<Rightarrow>
          if \<not> Contains err_out ''exit status 1'' then err_exec else None)"
  by (simp add: SplitPane_args_def split: prod.splits)

lemma SplitPane_propagated:
  assumes "SplitPane ev w log = (r, log')"
  shows "\<exists>ext. log' = log @ ext \<and>
           propagated ev log ext (case r of Panic \<Rightarrow> None | Normal (p, err, w1) \<Rightarrow> Some err)"
proof -
  obtain out err_out err_exec where rc: "RunCmd_out ev log (SplitPane_args w) = (out, err_out, err_exec)"
    by (metis prod_cases3)
  let ?c = "RunCmdCall (SplitPane_args w)"
  show ?thesis
  proof (cases "err_exec \<noteq> None \<and> \<not> Contains err_out ''exit status 1''")
    case True
    with assms rc have "log' = log @ [?c]" "r = Normal (zeroPane, err_exec, w)"
      by (auto simp: SplitPane_def RunCmd_def)
    moreover from True rc have "fatal ev log ?c = err_exec"
      by (simp add: fatal_split del: fatal.simps)
    ultimately show ?thesis by (auto intro!: propagated_single)
  next
    case False
    with rc have nf: "fatal ev log ?c = None"
      by (auto simp add: fatal_split simp del: fatal.simps)
    then have p1: "propagated ev log [?c] (Some None)" by (simp add: propagated_single)
    obtain rl ll where wl: "Window_ListPanes ev w (log @ [?c]) = (rl, ll)"
      by (cases "Window_ListPanes ev w (log @ [?c])")
    from Window_ListPanes_propagated [OF wl] obtain ext2 where
      ll: "ll = (log @ [?c]) @ ext2" and p2: "\<And>ro. propagated ev (log @ [?c]) ext2 ro"
      by (auto simp: Window_ListPanes_def ListPanes_def RunCmd_def split: prod.splits option.splits
               intro!: propagated_single)
    from assms rc False wl have "log' = ll"
      by (auto simp: SplitPane_def RunCmd_def split: prod.splits if_splits)
    with ll have "log' = log @ ([?c] @ ext2)" by simp
    moreover have "propagated ev log ([?c] @ ext2)
        (case r of Panic \<Rightarrow> None | Normal (p, err, w1) \<Rightarrow> Some err)"
      using propagated_seq [OF p1 p2] .
    ultimately show ?thesis by blast
  qed
qed


lemma paneLoop_propagated:
  "paneLoop ev idxs w log = (r, log') \<Longrightarrow>
   \<exists>ext. log' = log @ ext \<and> propagated ev log ext (returned r)"
proof (induction idxs arbitrary: w log)
  case Nil
  then show ?case by auto
next
  case (Cons idx idxs)
  show ?case
  proof (cases "idx > 0")
    case False
    with Cons show ?thesis by simp
  next
    case True
    obtain rs ls where sp: "SplitPane ev w log = (rs, ls)" by (cases "SplitPane ev w log")
    from SplitPane_propagated [OF sp] obtain ext1 where
      ls: "ls = log @ ext1" and
      p1: "propagated ev log ext1 (case rs of Panic \<Rightarrow> None | Normal (p, err, w1) \<Rightarrow> Some err)"
      by blast
    show ?thesis
    proof (cases rs)
      case Panic
      with Cons.prems True sp ls p1 show ?thesis by auto
    next
      case (Normal x)
      obtain pane err w1 where x: "x = (pane, err, w1)" by (cases x)
      show ?thesis
      proof (cases err)
        case (Some e)
        with Cons.prems True sp Normal x ls p1 show ?thesis by auto
      next
        case None
        with p1 Normal x have p1': "propagated ev log ext1 (Some None)" by simp
        show ?thesis
        proof (cases "idx < length (Panes w1)")
          case False
          with Cons.prems True sp Normal x None have "r = Panic" "log' = ls" by auto
          with ls propagated_weaken [OF p1'] show ?thesis by auto
        next
          case lt: True
          with Cons.prems True sp Normal x None
          have "paneLoop ev idxs (w1\<lparr>Panes := (Panes w1)[idx := pane]\<rparr>) ls = (r, log')"
            by simp
          from Cons.IH [OF this] obtain ext2 where
            "log' = ls @ ext2" and p2: "propagated ev ls ext2 (returned r)" by blast
          with ls have "log' = log @ (ext1 @ ext2)" by simp
          moreover have "propagated ev log (ext1 @ ext2) (returned r)"
            using propagated_seq [OF p1'] p2 ls by simp
          ultimately show ?thesis by blast
        qed
      qed
    qed
  qed
qed

lemma setupPanes_propagated:
  assumes "setupPanes ev w log = (r, log')"
  shows "\<exists>ext. log' = log @ ext \<and> propagated ev log ext (returned r)"
proof -
  obtain rl ll where wl: "Window_ListPanes ev w log = (rl, ll)"
    by (cases "Window_ListPanes ev w log")
  from Window_ListPanes_propagated [OF wl] obtain ext1 where
    ll: "ll = log @ ext1" and p1: "propagated ev log ext1 (Some None)" by blast
  from assms wl have "paneLoop ev [0 ..< length (Panes w)] (w\<lparr>Panes := fst rl\<rparr>) ll = (r, log')"
    by (auto simp: setupPanes_def split: prod.splits)
  from paneLoop_propagated [OF this] obtain ext2 where
    "log' = ll @ ext2" and p2: "propagated ev ll ext2 (returned r)" by blast
  with ll have "log' = log @ (ext1 @ ext2)" by simp
  moreover have "propagated ev log (ext1 @ ext2) (returned r)"
    using propagated_seq [OF p1] p2 ll by simp
  ultimately show ?thesis by blast
qed

lemma realizeWindow_propagated:
  assumes "realizeWindow ev s iw w log = ((err, w1), log')"
  shows "\<exists>ext. log' = log @ ext \<and> propagated ev log ext (Some err)"
proof (cases "Window.Name w = Window.Name iw")
  case True
  from assms realizeWindow_initial [OF True, of ev s log] show ?thesis by auto
next
  case False
  from assms realizeWindow_other [OF False, of ev s log] show ?thesis
    by (auto split: prod.splits option.splits intro!: propagated_single)
qed

lemma selectLayout_propagated:
  assumes "selectLayout ev w log = (err, log')"
  shows "\<exists>ext. log' = log @ ext \<and> propagated ev log ext (Some err)"
  using assms
  by (auto simp: selectLayout_def RunCmd_def split: if_splits prod.splits
           intro!: propagated_single)

lemma applyWindow_propagated:
  assumes "applyWindow ev s iw w log = (r, log')"
  shows "\<exists>ext. log' = log @ ext \<and> propagated ev log ext (returned r)"
proof -
  obtain e1 w1 l1 where rw: "realizeWindow ev s iw w log = ((e1, w1), l1)"
    by (metis prod.exhaust)
  from realizeWindow_propagated [OF rw] obtain x1 where
    l1: "l1 = log @ x1" and p1: "propagated ev log x1 (Some e1)" by blast
  show ?thesis
  proof (cases e1)
    case (Some e)
    with assms rw l1 p1 show ?thesis by (auto simp: applyWindow_def)
  next
    case None
    obtain r2 l2 where sp: "setupPanes ev w1 l1 = (r2, l2)" by (cases "setupPanes ev w1 l1")
    from setupPanes_propagated [OF sp] obtain x2 where
      l2: "l2 = l1 @ x2" and p2: "propagated ev l1 x2 (returned r2)" by blast
    from p1 None have p1': "propagated ev log x1 (Some None)" by simp
    have p12: "propagated ev log (x1 @ x2) (returned r2)"
      using propagated_seq [OF p1'] p2 l1 by simp
    have l12: "l2 = log @ (x1 @ x2)" using l1 l2 by simp
    show ?thesis
    proof (cases r2)
      case Panic
      with assms rw None sp l12 p12 show ?thesis by (auto simp: applyWindow_def)
    next
      case (Normal y)
      obtain e2 w2 where y: "y = (e2, w2)" by (cases y)
      show ?thesis
      proof (cases e2)
        case (Some e)
        with assms rw None sp Normal y l12 p12 show ?thesis by (auto simp: applyWindow_def)
      next
        case n2: None
        obtain e3 l3 where sl: "selectLayout ev w2 l2 = (e3, l3)"
          by (cases "selectLayout ev w2 l2")
        from selectLayout_propagated [OF sl] obtain x3 where
          l3: "l3 = l2 @ x3" and p3: "propagated ev l2 x3 (Some e3)" by blast
        from assms rw None sp Normal y n2 sl have r: "r = Normal (e3, w2)" "log' = l3"
          by (auto simp: applyWindow_def)
        from p12 Normal y n2 have "propagated ev log (x1 @ x2) (Some None)" by simp
        from propagated_seq [OF this] p3 l12
        have "propagated ev log ((x1 @ x2) @ x3) (Some e3)" by simp
        moreover have "log' = log @ ((x1 @ x2) @ x3)" using r l3 l12 by simp
        ultimately show ?thesis using r by auto
      qed
    qed
  qed
qed

lemma windowLoop_propagated:
  "windowLoop ev s iw ws win log = (r, log') \<Longrightarrow>
   \<exists>ext. log' = log @ ext \<and> propagated ev log ext (returned r)"
proof (induction ws arbitrary: win log)
  case Nil
  then show ?case by auto
next
  case (Cons w ws)
  obtain r1 l1 where aw: "applyWindow ev s iw w log = (r1, l1)"
    by (cases "applyWindow ev s iw w log")
  from applyWindow_propagated [OF aw] obtain x1 where
    l1: "l1 = log @ x1" and p1: "propagated ev log x1 (returned r1)" by blast
  show ?case
  proof (cases r1)
    case Panic
    with Cons.prems aw l1 p1 show ?thesis by auto
  next
    case (Normal y)
    obtain e1 w1 where y: "y = (e1, w1)" by (cases y)
    show ?thesis
    proof (cases e1)
      case (Some e)
      with Cons.prems aw Normal y l1 p1 show ?thesis by auto
    next
      case None
      with Cons.prems aw Normal y
      have "windowLoop ev s iw ws (win @ [w1]) l1 = (r, log')" by simp
      from Cons.IH [OF this] obtain x2 where
        "log' = l1 @ x2" and p2: "propagated ev l1 x2 (returned r)" by blast
      with l1 have "log' = log @ (x1 @ x2)" by simp
      moreover from p1 Normal y None have "propagated ev log x1 (Some None)" by simp
      from propagated_seq [OF this] p2 l1
      have "propagated ev log (x1 @ x2) (returned r)" by simp
      ultimately show ?thesis by blast
    qed
  qed
qed

lemma enterSession_propagated:
  assumes "enterSession ev srv act si s iw log = ((err, s1), log')"
  shows "\<exists>ext. log' = log @ ext \<and> propagated ev log ext (Some err)"
proof -
  let ?args = "[''-n'', Window.Name iw] @
               (if length (Session.StartDirectory s) \<noteq> 0
                then [''-c'', Session.StartDirectory s] else [])"
  let ?c = "NewSessionCall srv (Session.Name s) ?args"
  obtain session e where out: "NewSession_out ev log srv (Session.Name s) ?args = (session, e)"
    by (metis prod.exhaust)
  show ?thesis
  proof (cases e)
    case (Some x)
    with assms out have "log' = log @ [?c]" "err = Some x"
      by (auto simp: enterSession_def NewSession_def Let_def)
    moreover from out Some have "fatal ev log ?c = Some x" by simp
    ultimately show ?thesis by (auto intro!: propagated_single)
  next
    case None
    with out have nf: "fatal ev log ?c = None" by simp
    then have p1: "propagated ev log [?c] (Some None)" by (simp add: propagated_single)
    from assms out None have err: "err = None"
      by (auto simp: enterSession_def NewSession_def Let_def split: if_splits)
    show ?thesis
    proof (cases "act = Some si")
      case False
      with assms out None have "log' = log @ [?c]"
        by (auto simp: enterSession_def NewSession_def Let_def)
      with p1 err show ?thesis by auto
    next
      case True
      with assms out None obtain s2 where "log' = (log @ [?c]) @ [AttachSessionCall s2]"
        by (auto simp: enterSession_def NewSession_def AttachSession_def Let_def)
      moreover have "propagated ev (log @ [?c]) [AttachSessionCall s2] (Some None)"
        by (simp add: propagated_single)
      from propagated_seq [OF p1 this]
      have "propagated ev log ([?c] @ [AttachSessionCall s2]) (Some err)" using err by simp
      ultimately show ?thesis by auto
    qed
  qed
qed

lemma applySession_propagated:
  assumes "applySession ev srv act si s log = (r, log')"
  shows "\<exists>ext. log' = log @ ext \<and> propagated ev log ext (returned r)"
proof (cases "Windows s")
  case Nil
  with assms show ?thesis by (auto simp: applySession_def)
next
  case (Cons iw rest)
  obtain e1 s1 l1 where es: "enterSession ev srv act si s iw log = ((e1, s1), l1)"
    by (metis prod.exhaust)
  from enterSession_propagated [OF es] obtain x1 where
    l1: "l1 = log @ x1" and p1: "propagated ev log x1 (Some e1)" by blast
  show ?thesis
  proof (cases e1)
    case (Some e)
    with assms Cons es l1 p1 show ?thesis by (auto simp: applySession_def)
  next
    case None
    obtain r2 l2 where wl: "windowLoop ev s1 iw (Windows s1) [] l1 = (r2, l2)"
      by (cases "windowLoop ev s1 iw (Windows s1) [] l1")
    from windowLoop_propagated [OF wl] obtain x2 where
      l2: "l2 = l1 @ x2" and p2: "propagated ev l1 x2 (returned r2)" by blast
    from p1 None have "propagated ev log x1 (Some None)" by simp
    from propagated_seq [OF this] p2 l1
    have p12: "propagated ev log (x1 @ x2) (returned r2)" by simp
    have l12: "l2 = log @ (x1 @ x2)" using l1 l2 by simp
    from assms Cons es None wl have "log' = l2 \<and> returned r = returned r2"
      by (auto simp: applySession_def split: exec.splits option.splits)
    with p12 l12 show ?thesis by auto
  qed
qed

lemma sessionLoop_propagated:
  "sessionLoop ev srv act si ss log = (r, log') \<Longrightarrow>
   \<exists>ext. log' = log @ ext \<and> propagated ev log ext (returned r)"
proof (induction ss arbitrary: si log r log')
  case Nil
  then show ?case by auto
next
  case (Cons s ss)
  obtain r1 l1 where a: "applySession ev srv act si s log = (r1, l1)"
    by (cases "applySession ev srv act si s log")
  from applySession_propagated [OF a] obtain x1 where
    l1: "l1 = log @ x1" and p1: "propagated ev log x1 (returned r1)" by blast
  show ?case
  proof (cases r1)
    case Panic
    with Cons.prems a l1 p1 show ?thesis by auto
  next
    case (Normal y)
    obtain e1 s1 where y: "y = (e1, s1)" by (cases y)
    show ?thesis
    proof (cases e1)
      case (Some e)
      with Cons.prems a Normal y l1 p1 show ?thesis by auto
    next
      case None
      obtain r2 l2 where b: "sessionLoop ev srv act (si + 1) ss l1 = (r2, l2)"
        by (cases "sessionLoop ev srv act (si + 1) ss l1")
      from Cons.IH [OF b] obtain x2 where
        l2: "l2 = l1 @ x2" and p2: "propagated ev l1 x2 (returned r2)" by blast
      from Cons.prems a Normal y None b have "log' = l2 \<and> returned r = returned r2"
        by (auto split: exec.splits)
      moreover from p1 Normal y None have "propagated ev log x1 (Some None)" by simp
      from propagated_seq [OF this] p2 l1
      have "propagated ev log (x1 @ x2) (returned r2)" by simp
      moreover have "l2 = log @ (x1 @ x2)" using l1 l2 by simp
      ultimately show ?thesis by auto
    qed
  qed
qed

lemma Apply_propagated:
  assumes "Apply ev c log = (r, log')"
  shows "\<exists>ext. log' = log @ ext \<and> propagated ev log ext (returned r)"
proof (cases "Server c")
  case None
  with assms show ?thesis by (auto simp: Apply_def)
next
  case (Some srv)
  show ?thesis
  proof (cases "length (Sessions c) = 0 \<or> checkInput c \<noteq> None")
    case True
    with assms Some show ?thesis by (auto simp: Apply_def split: if_splits option.splits)
  next
    case False
    obtain r1 l1 where a: "sessionLoop ev srv (ActiveSession c) 0 (Sessions c) log = (r1, l1)"
      by (cases "sessionLoop ev srv (ActiveSession c) 0 (Sessions c) log")
    from assms Some False a have "log' = l1 \<and> returned r = returned r1"
      by (auto simp: Apply_def split: exec.splits)
    with sessionLoop_propagated [OF a] show ?thesis by auto
  qed
qed

text \<open>
  The errors that \<open>Apply\<close> does return: every error returned during \<open>Apply\<close> by a
  session creation, a window creation, a layout selection or a \<open>split-window\<close> command
  (but for the tolerated one, whose error text holds \<open>exit status 1\<close>) is the error
  \<open>Apply\<close> returns to its caller, and the failed call is the last call \<open>Apply\<close> issues.
\<close>

theorem Apply_propagates:
  assumes "Apply ev c log = (r, log @ ext)"
      and "k < length ext"
      and "fatal ev (log @ take k ext) (ext ! k) = Some e"
  shows "Suc k = length ext \<and> (\<exists>c'. r = Normal (Some e, c'))"
proof -
  from Apply_propagated [OF assms(1)] have "propagated ev log ext (returned r)" by auto
  with assms(2,3) have "Suc k = length ext" and "returned r = Some (Some e)"
    by (auto simp: propagated_def)
  then show ?thesis by (auto simp: returned_def split: exec.splits)
qed

theorem Apply_propagates_witness:
  "Apply brokenEnv cfgTwoPanes [] =
     (Normal (Some (Error ''exit status 2''), cfgTwoPanes\<lparr>Sessions := [createdSession 2]\<rparr>),
      [] @ brokenCalls) \<and>
   2 < length brokenCalls \<and>
   fatal brokenEnv ([] @ take 2 brokenCalls) (brokenCalls ! 2) = Some (Error ''exit status 2'') \<and>
   Suc 2 = length brokenCalls"
proof -
  have a: "Apply brokenEnv cfgTwoPanes [] =
     (Normal (Some (Error ''exit status 2''), cfgTwoPanes\<lparr>Sessions := [createdSession 2]\<rparr>),
      [] @ brokenCalls)"
    by code_simp
  have b: "2 < length brokenCalls"
    by code_simp
  have c: "fatal brokenEnv ([] @ take 2 brokenCalls) (brokenCalls ! 2) =
     Some (Error ''exit status 2'')"
    by code_simp
  from Apply_propagates [OF a b c] have d: "Suc 2 = length brokenCalls"
    by (rule conjunct1)
  show ?thesis
    by (intro conjI; (rule a b c d))
qed

text \<open>
  C4.  The code at two inputs where a sub-operation of \<open>Apply\<close> fails.  First the
  attach alone fails (line 73: the result of \<open>s.AttachSession()\<close> is not looked at);
  then the pane-list refresh alone fails (line 110: the error of \<open>w.ListPanes()\<close> is
  discarded).  Both times \<open>Apply\<close> goes on and returns no error, where the calls next to
  them in \<open>Apply\<close> (session creation, window creation, split, layout) return theirs.
\<close>

theorem Apply_swallows_errors:
  "snd (Apply attachFailEnv cfgOnePane []) =
     [NewSessionCall ''default'' ''dev'' [''-n'', ''edit''],
      AttachSessionCall (createdSession 1), listCall ''edit''] \<and>
   fst (AttachSession attachFailEnv (createdSession 1)
          [NewSessionCall ''default'' ''dev'' [''-n'', ''edit'']]) =
     Some (Error ''exit status 1'') \<and>
   snd (fst (Window_ListPanes attachFailEnv (liveWindow ''edit'' 0 [zeroPane])
               [NewSessionCall ''default'' ''dev'' [''-n'', ''edit''],
                AttachSessionCall (createdSession 1)])) = None \<and>
   fst (Apply attachFailEnv cfgOnePane []) =
     Normal (None, applied cfgOnePane [liveWindow ''edit'' 0 [listedPane 0]]) \<and>
   snd (Apply brokenEnv cfgDetached []) =
     [NewSessionCall ''default'' ''dev'' [''-n'', ''edit''], listCall ''edit''] \<and>
   snd (fst (Window_ListPanes brokenEnv (liveWindow ''edit'' 0 [zeroPane])
               [NewSessionCall ''default'' ''dev'' [''-n'', ''edit'']])) =
     Some (Error ''exit status 2'') \<and>
   fst (Apply brokenEnv cfgDetached []) =
     Normal (None, applied cfgDetached [liveWindow ''edit'' 0 []])"
  by code_simp

section \<open>Apply: the calls for a window\<close>






















end
